theory Spec2Isabelle
  imports Complex_Main "HOL-Library.Word" "HOL-Library.Log_Nat"
begin

section \<open>Go's float64, as far as the balancer uses it\<close>

text \<open>
  The selector converts two int64 values to float64, divides them and compares the
  quotient with \<open>1.0\<close> and with another such quotient. A float64 is modelled by the
  value it denotes: not-a-number, the two infinities, or a finite rational. The two
  zeros of IEEE 754 are one value here: the program only compares quotients, which
  cannot tell them apart, and every divisor comes from an integer conversion, which
  never yields the negative zero.
\<close>

datatype float64 = NaN | PInf | NInf | Fin rat

text \<open>Rounding to the nearest integer, ties to the even one.\<close>

definition round_half_even :: "rat \<Rightarrow> int" where
  "round_half_even x =
     (let f = \<lfloor>x\<rfloor>; r = x - of_int f
      in if r < 1 / 2 then f
         else if 1 / 2 < r then f + 1
         else if even f then f else f + 1)"

text \<open>The binary exponent of a positive rational: \<open>2 powi ilog2 q \<le> q < 2 powi (ilog2 q + 1)\<close>.\<close>

definition ilog2 :: "rat \<Rightarrow> int" where
  "ilog2 q =
     (if 1 \<le> q then bitlen \<lfloor>q\<rfloor> - 1
      else - bitlen (\<lceil>1 / q\<rceil> - 1))"

text \<open>
  Round to nearest, ties to even, with the 53-bit significand of binary64. The exponent
  of the last place is that of the binade, and not below \<open>-1074\<close> (the subnormal range).
\<close>

definition round53 :: "rat \<Rightarrow> rat" where
  "round53 q =
     (if q = 0 then 0
      else let e = max (ilog2 \<bar>q\<bar> - 52) (- 1074);
               m = round_half_even (\<bar>q\<bar> / 2 powi e)
           in sgn q * of_int m * 2 powi e)"

text \<open>The float64 nearest to a rational; a magnitude of \<open>2 ^ 1024\<close> or more overflows.\<close>

definition to_float64 :: "rat \<Rightarrow> float64" where
  "to_float64 q =
     (let r = round53 q
      in if 2 ^ 1024 \<le> \<bar>r\<bar> then (if q < 0 then NInf else PInf) else Fin r)"

text \<open>The conversion \<open>float64(x)\<close> of an int64.\<close>

definition float64_of_int64 :: "64 word \<Rightarrow> float64" where
  "float64_of_int64 w = to_float64 (of_int (sint w))"

text \<open>The quotient \<open>x / y\<close> of IEEE 754; a zero divisor is the positive zero.\<close>

fun f_div :: "float64 \<Rightarrow> float64 \<Rightarrow> float64" where
  "f_div NaN _ = NaN"
| "f_div _ NaN = NaN"
| "f_div (Fin x) (Fin y) =
     (if y = 0 then (if x = 0 then NaN else if 0 < x then PInf else NInf)
      else to_float64 (x / y))"
| "f_div (Fin x) PInf = Fin 0"
| "f_div (Fin x) NInf = Fin 0"
| "f_div PInf (Fin y) = (if 0 \<le> y then PInf else NInf)"
| "f_div NInf (Fin y) = (if 0 \<le> y then NInf else PInf)"
| "f_div PInf PInf = NaN"
| "f_div PInf NInf = NaN"
| "f_div NInf PInf = NaN"
| "f_div NInf NInf = NaN"

text \<open>The comparisons \<open>x < y\<close> and \<open>x >= y\<close>: both are false when an operand is NaN.\<close>

fun f_lt :: "float64 \<Rightarrow> float64 \<Rightarrow> bool" where
  "f_lt NaN _ = False"
| "f_lt _ NaN = False"
| "f_lt _ NInf = False"
| "f_lt NInf _ = True"
| "f_lt PInf _ = False"
| "f_lt (Fin x) PInf = True"
| "f_lt (Fin x) (Fin y) = (x < y)"

definition f_ge :: "float64 \<Rightarrow> float64 \<Rightarrow> bool" where
  "f_ge x y = (x \<noteq> NaN \<and> y \<noteq> NaN \<and> \<not> f_lt x y)"

text \<open>The constant \<open>1.0\<close>.\<close>

definition f_one :: float64 where
  "f_one = Fin 1"

section \<open>The registry\<close>

text \<open>
  \<open>Server\<close> and \<open>LoadBalancer\<close> of \<open>main.go\<close>. The connection counters are int64 and
  change by \<open>atomic.AddInt64\<close>, which wraps; \<open>Id\<close> is an \<open>int\<close>, 64 bits wide here. A parsed address is the string it was
  parsed from; a \<open>*url.URL\<close> that is nil is \<open>None\<close>. A reverse proxy holds the target
  it was built for, and the \<open>ReverseProxy\<close> field is a pointer, nil until set.
\<close>

type_synonym url = string

datatype reverse_proxy = SingleHostReverseProxy "url option"

record Server =
  Id :: "64 word"
  MaximumActiveConnections :: "64 word"
  CurrentActiveConnections :: "64 word"
  Status :: bool
  URL :: string
  ReverseProxy :: "reverse_proxy option"

record LoadBalancer =
  Servers :: "Server list"
  TotalActiveConnections :: "64 word"
  TotalRequests :: "64 word"

section \<open>The selector\<close>

text \<open>
  \<open>float64(CurrentActiveConnections) / float64(MaximumActiveConnections)\<close>, the load
  that \<open>selectServer\<close> computes for the current entry and again for the best one so far.
\<close>

definition load :: "Server \<Rightarrow> float64" where
  "load s =
     f_div (float64_of_int64 (CurrentActiveConnections s))
           (float64_of_int64 (MaximumActiveConnections s))"

text \<open>
  One pass through the body of the loop of \<open>selectServer\<close>, at index \<open>i\<close>, with
  \<open>optimalServer\<close> the pointer kept so far: \<open>None\<close> is nil, \<open>Some j\<close> is
  \<open>&lb.Servers[j]\<close>. The result is the pointer with which the next pass starts
  (each \<open>continue\<close> goes there too).
\<close>

definition selectServer_body :: "LoadBalancer \<Rightarrow> nat \<Rightarrow> nat option \<Rightarrow> nat option" where
  "selectServer_body lb i optimalServer =
     (let currentLoad = load (Servers lb ! i)
      in if \<not> Status (Servers lb ! i) \<or> f_ge currentLoad f_one
         then optimalServer
         else (case optimalServer of
                 None \<Rightarrow> Some i
               | Some j \<Rightarrow>
                   (let optimalLoad = load (Servers lb ! j)
                    in if f_lt currentLoad optimalLoad then Some i else optimalServer)))"

text \<open>The loop \<open>for i := 0; i < len(lb.Servers); i++\<close>, from index \<open>i\<close> on.\<close>

function selectServer_loop :: "LoadBalancer \<Rightarrow> nat \<Rightarrow> nat option \<Rightarrow> nat option" where
  "selectServer_loop lb i optimalServer =
     (if i < length (Servers lb)
      then selectServer_loop lb (i + 1) (selectServer_body lb i optimalServer)
      else optimalServer)"
  by pat_completeness auto
termination
  by (relation "measure (\<lambda>(lb, i, optimalServer). length (Servers lb) - i)") auto

declare selectServer_loop.simps [simp del]

definition selectServer :: "LoadBalancer \<Rightarrow> nat option" where
  "selectServer lb = selectServer_loop lb 0 None"

section \<open>The dispatcher\<close>

text \<open>
  The three counters that \<open>ServeHTTP\<close> changes, each by \<open>atomic.AddInt64\<close>; the
  per-entry one is named by the index of its entry.
\<close>

datatype counter =
    TotalRequestsCounter
  | TotalActiveConnectionsCounter
  | CurrentActiveConnectionsCounter nat

fun add_counter :: "counter \<Rightarrow> 64 word \<Rightarrow> LoadBalancer \<Rightarrow> LoadBalancer" where
  "add_counter TotalRequestsCounter d lb = lb\<lparr>TotalRequests := TotalRequests lb + d\<rparr>"
| "add_counter TotalActiveConnectionsCounter d lb =
     lb\<lparr>TotalActiveConnections := TotalActiveConnections lb + d\<rparr>"
| "add_counter (CurrentActiveConnectionsCounter i) d lb =
     lb\<lparr>Servers := (Servers lb)
        [i := (Servers lb ! i)\<lparr>CurrentActiveConnections :=
                 CurrentActiveConnections (Servers lb ! i) + d\<rparr>]\<rparr>"

text \<open>
  A run of the handler is the registry it leaves together with the atomic additions
  it made, in order.
\<close>

type_synonym run = "LoadBalancer \<times> (counter \<times> 64 word) list"

definition atomic_AddInt64 :: "counter \<Rightarrow> 64 word \<Rightarrow> run \<Rightarrow> run" where
  "atomic_AddInt64 c d st = (add_counter c d (fst st), snd st @ [(c, d)])"

text \<open>
  A list of such additions, made one after the other: what the handlers of other
  requests do to the counters while this one is forwarding.
\<close>

definition atomic_adds :: "(counter \<times> 64 word) list \<Rightarrow> LoadBalancer \<Rightarrow> LoadBalancer" where
  "atomic_adds ops lb = fold (\<lambda>op. add_counter (fst op) (snd op)) ops lb"

text \<open>
  The forwarding is the work of \<open>httputil.ReverseProxy\<close>: its \<open>ServeHTTP\<close> either
  returns (it answers a backend failure itself, with an error response) or panics
  (\<open>http.ErrAbortHandler\<close>, a nil target). It is a parameter of the model. Calling it
  through a nil \<open>ReverseProxy\<close> pointer panics.
\<close>

datatype forward_outcome = Returned | Panicked

definition forward :: "(reverse_proxy \<Rightarrow> forward_outcome) \<Rightarrow> Server \<Rightarrow> forward_outcome" where
  "forward proxy_ServeHTTP s =
     (case ReverseProxy s of None \<Rightarrow> Panicked | Some p \<Rightarrow> proxy_ServeHTTP p)"

text \<open>
  How the handler ends: with the 503 answer, by returning after the forward, or with the
  panic of the forward going on to the caller once the deferred function has run.
\<close>

datatype outcome = ServiceUnavailable | Forwarded nat | PanicPropagated nat

text \<open>
  The handler up to the forward: the request is counted, the selector is asked, and
  when it returns an entry both active counters are raised. The result is the pointer
  of the selector and the run so far; its registry is the one the forward runs in.
\<close>

definition ServeHTTP_begin :: "LoadBalancer \<Rightarrow> nat option \<times> run" where
  "ServeHTTP_begin lb =
     (let st1 = atomic_AddInt64 TotalRequestsCounter 1 (lb, [])
      in case selectServer (fst st1) of
           None \<Rightarrow> (None, st1)
         | Some i \<Rightarrow>
             (let st2 = atomic_AddInt64 (CurrentActiveConnectionsCounter i) 1 st1;
                  st3 = atomic_AddInt64 TotalActiveConnectionsCounter 1 st2
              in (Some i, st3)))"

text \<open>
  The whole handler: with nil it answers 503 and returns; otherwise it forwards, and
  the deferred function lowers both counters whether the forward returned or panicked.
\<close>

definition ServeHTTP :: "(reverse_proxy \<Rightarrow> forward_outcome) \<Rightarrow> LoadBalancer \<Rightarrow> outcome \<times> run" where
  "ServeHTTP proxy_ServeHTTP lb =
     (case ServeHTTP_begin lb of
        (None, st1) \<Rightarrow> (ServiceUnavailable, st1)
      | (Some i, st3) \<Rightarrow>
          (let res = forward proxy_ServeHTTP (Servers (fst st3) ! i);
               st4 = atomic_AddInt64 (CurrentActiveConnectionsCounter i) (- 1) st3;
               st5 = atomic_AddInt64 TotalActiveConnectionsCounter (- 1) st4
           in (case res of Returned \<Rightarrow> Forwarded i | Panicked \<Rightarrow> PanicPropagated i, st5)))"

section \<open>The health check\<close>

text \<open>
  What \<open>client.Get\<close> gives back: an error (with a response or without one), or no
  error and a response with its status code.
\<close>

datatype probe_result = ProbeError "int option" | ProbeResponse int

definition newStatus :: "probe_result \<Rightarrow> bool" where
  "newStatus r = (case r of ProbeError _ \<Rightarrow> False | ProbeResponse StatusCode \<Rightarrow> StatusCode = 200)"

text \<open>One probe: the goroutine of \<open>healthCheck\<close> for the entry at index \<open>i\<close>.\<close>

definition healthCheck_probe :: "(string \<Rightarrow> probe_result) \<Rightarrow> nat \<Rightarrow> LoadBalancer \<Rightarrow> LoadBalancer" where
  "healthCheck_probe client_Get i lb =
     lb\<lparr>Servers := (Servers lb)
        [i := (Servers lb ! i)\<lparr>Status := newStatus (client_Get (URL (Servers lb ! i) @ ''/health''))\<rparr>]\<rparr>"

text \<open>
  One cycle: a probe for every entry. Each goroutine writes the flag of its own entry
  only, so the cycle is the probes one after the other, in any order.
\<close>

definition healthCheck_cycle :: "(string \<Rightarrow> probe_result) \<Rightarrow> LoadBalancer \<Rightarrow> LoadBalancer" where
  "healthCheck_cycle client_Get lb =
     fold (healthCheck_probe client_Get) [0 ..< length (Servers lb)] lb"

section \<open>Startup\<close>

text \<open>
  \<open>setupReversProxies\<close>: the error of \<open>url.Parse\<close> is dropped, so an address that does
  not parse gives a proxy for the nil target. \<open>url.Parse\<close> is a parameter.
\<close>

definition setupReversProxies :: "(string \<Rightarrow> url option) \<Rightarrow> LoadBalancer \<Rightarrow> LoadBalancer" where
  "setupReversProxies url_Parse lb =
     lb\<lparr>Servers := map (\<lambda>s. s\<lparr>ReverseProxy := Some (SingleHostReverseProxy (url_Parse (URL s)))\<rparr>)
                       (Servers lb)\<rparr>"

text \<open>
  The configuration is a JSON document that \<open>json.Unmarshal\<close> decodes into the
  \<open>LoadBalancer\<close>. The model takes the document as the members it gives for the fields
  that the structs export: for each, the member may be absent, or be null, a boolean,
  an integer literal, a string, an array or an object. (Members that match no field are
  skipped by the decoder; a \<open>ReverseProxy\<close> member and number literals with a fraction
  or an exponent are outside the model.)
\<close>

datatype json_member = Absent | JNull | JBool bool | JNumber int | JString string | JArray | JObject

record ServerJSON =
  json_Id :: json_member
  json_MaximumActiveConnections :: json_member
  json_CurrentActiveConnections :: json_member
  json_Status :: json_member
  json_URL :: json_member

record LoadBalancerJSON =
  json_Servers :: "ServerJSON list"
  json_TotalActiveConnections :: json_member
  json_TotalRequests :: json_member

text \<open>
  What the decoder of \<open>encoding/json\<close> stores, by the kind of the Go field. The result
  is the field's new value and whether an \<open>UnmarshalTypeError\<close> was recorded. An absent
  member and a null leave a field of these kinds as it is. An integer field takes a
  number literal that fits int64. \<open>atomic.Bool\<close> is a struct with no exported field and
  no \<open>UnmarshalJSON\<close>: an object stores nothing into it, and a boolean (like every
  other literal, and an array) is a type error.
\<close>

fun unmarshal_int64 :: "json_member \<Rightarrow> 64 word \<Rightarrow> 64 word \<times> bool" where
  "unmarshal_int64 Absent v = (v, False)"
| "unmarshal_int64 JNull v = (v, False)"
| "unmarshal_int64 (JNumber n) v =
     (if - (2 ^ 63) \<le> n \<and> n < 2 ^ 63 then (word_of_int n, False) else (v, True))"
| "unmarshal_int64 _ v = (v, True)"

fun unmarshal_string :: "json_member \<Rightarrow> string \<Rightarrow> string \<times> bool" where
  "unmarshal_string Absent v = (v, False)"
| "unmarshal_string JNull v = (v, False)"
| "unmarshal_string (JString s) v = (s, False)"
| "unmarshal_string _ v = (v, True)"

fun unmarshal_atomic_Bool :: "json_member \<Rightarrow> bool \<Rightarrow> bool \<times> bool" where
  "unmarshal_atomic_Bool Absent v = (v, False)"
| "unmarshal_atomic_Bool JNull v = (v, False)"
| "unmarshal_atomic_Bool JObject v = (v, False)"
| "unmarshal_atomic_Bool _ v = (v, True)"

text \<open>A new element of the slice is the zero \<open>Server\<close>.\<close>

definition zero_Server :: Server where
  "zero_Server =
     \<lparr>Id = 0, MaximumActiveConnections = 0, CurrentActiveConnections = 0,
      Status = False, URL = [], ReverseProxy = None\<rparr>"

definition unmarshal_Server :: "ServerJSON \<Rightarrow> Server \<times> bool" where
  "unmarshal_Server j =
     (let (id, e1) = unmarshal_int64 (json_Id j) (Id zero_Server);
          (mx, e2) = unmarshal_int64 (json_MaximumActiveConnections j)
                       (MaximumActiveConnections zero_Server);
          (cur, e3) = unmarshal_int64 (json_CurrentActiveConnections j)
                       (CurrentActiveConnections zero_Server);
          (st, e4) = unmarshal_atomic_Bool (json_Status j) (Status zero_Server);
          (u, e5) = unmarshal_string (json_URL j) (URL zero_Server)
      in (\<lparr>Id = id, MaximumActiveConnections = mx, CurrentActiveConnections = cur,
           Status = st, URL = u, ReverseProxy = None\<rparr>,
          e1 \<or> e2 \<or> e3 \<or> e4 \<or> e5))"

text \<open>\<open>json.Unmarshal(serversInfoFile, &lb)\<close> into the zero \<open>LoadBalancer\<close> of \<open>main\<close>.\<close>

definition unmarshal_LoadBalancer :: "LoadBalancerJSON \<Rightarrow> LoadBalancer \<times> bool" where
  "unmarshal_LoadBalancer j =
     (let ss = map unmarshal_Server (json_Servers j);
          (ta, e1) = unmarshal_int64 (json_TotalActiveConnections j) 0;
          (tr, e2) = unmarshal_int64 (json_TotalRequests j) 0
      in (\<lparr>Servers = map fst ss, TotalActiveConnections = ta, TotalRequests = tr\<rparr>,
          list_ex snd ss \<or> e1 \<or> e2))"

text \<open>
  The file named by \<open>-servers\<close>: \<open>os.ReadFile\<close> fails, or the bytes are not JSON (a
  \<open>SyntaxError\<close> of \<open>json.Unmarshal\<close>), or they are a document.
\<close>

datatype config_file = Unreadable | Malformed | Document LoadBalancerJSON

text \<open>
  \<open>main\<close> up to the point where it starts the health check and the listener: it prints
  the error and returns when the file cannot be read or \<open>json.Unmarshal\<close> returns an
  error, and goes on with the registry otherwise. Nothing else is checked.
\<close>

datatype startup = ExitReadError | ExitUnmarshalError | Started LoadBalancer

definition main_startup :: "(string \<Rightarrow> url option) \<Rightarrow> config_file \<Rightarrow> startup" where
  "main_startup url_Parse f =
     (case f of
        Unreadable \<Rightarrow> ExitReadError
      | Malformed \<Rightarrow> ExitUnmarshalError
      | Document j \<Rightarrow>
          (let (lb, err) = unmarshal_LoadBalancer j
           in if err then ExitUnmarshalError else Started (setupReversProxies url_Parse lb)))"

section \<open>Predicates for stating the properties\<close>

text \<open>
  An entry passes the guard of the loop when it is in the registry, its flag is set and
  the test \<open>currentLoad >= 1.0\<close> is false for it.
\<close>

definition passes_guard :: "LoadBalancer \<Rightarrow> nat \<Rightarrow> bool" where
  "passes_guard lb k =
     (k < length (Servers lb) \<and> Status (Servers lb ! k) \<and> \<not> f_ge (load (Servers lb ! k)) f_one)"

text \<open>
  The pointer \<open>opt\<close> is the answer for the first \<open>n\<close> entries: nil when none of them
  passes the guard; otherwise one that passes it, with no smaller load among those that
  pass it, and a strictly smaller load than each of those before it.
\<close>

definition least_loaded_upto :: "LoadBalancer \<Rightarrow> nat \<Rightarrow> nat option \<Rightarrow> bool" where
  "least_loaded_upto lb n opt =
     (case opt of
        None \<Rightarrow> (\<forall>k<n. \<not> passes_guard lb k)
      | Some j \<Rightarrow>
          j < n \<and> passes_guard lb j \<and>
          (\<forall>k<n. passes_guard lb k \<longrightarrow> \<not> f_lt (load (Servers lb ! k)) (load (Servers lb ! j))) \<and>
          (\<forall>k<j. passes_guard lb k \<longrightarrow> f_lt (load (Servers lb ! j)) (load (Servers lb ! k))))"

text \<open>Healthy and with a load below \<open>1.0\<close>.\<close>

definition qualifying :: "LoadBalancer \<Rightarrow> nat \<Rightarrow> bool" where
  "qualifying lb k =
     (k < length (Servers lb) \<and> Status (Servers lb ! k) \<and> f_lt (load (Servers lb ! k)) f_one)"

text \<open>At or over capacity: the connections have reached the capacity.\<close>

definition at_capacity :: "Server \<Rightarrow> bool" where
  "at_capacity s = (sint (MaximumActiveConnections s) \<le> sint (CurrentActiveConnections s))"

text \<open>A success status of HTTP: one of the class 2xx.\<close>

definition success_status :: "int \<Rightarrow> bool" where
  "success_status code = (200 \<le> code \<and> code < 300)"

section \<open>Registries and configurations of the examples\<close>

text \<open>A backend as \<open>setupReversProxies\<close> leaves it when its address parses.\<close>

definition backend :: "64 word \<Rightarrow> 64 word \<Rightarrow> 64 word \<Rightarrow> bool \<Rightarrow> string \<Rightarrow> Server" where
  "backend n capacity active healthy address =
     \<lparr>Id = n, MaximumActiveConnections = capacity, CurrentActiveConnections = active,
      Status = healthy, URL = address,
      ReverseProxy = Some (SingleHostReverseProxy (Some address))\<rparr>"

text \<open>The two backends of the README, both up and idle.\<close>

definition two_backends :: LoadBalancer where
  "two_backends =
     \<lparr>Servers = [backend 1 5 0 True ''http://localhost:9001'',
                 backend 2 3 0 True ''http://localhost:9002''],
      TotalActiveConnections = 0, TotalRequests = 0\<rparr>"

text \<open>The first backend full, the second down.\<close>

definition none_available :: LoadBalancer where
  "none_available =
     \<lparr>Servers = [backend 1 5 5 True ''http://localhost:9001'',
                 backend 2 3 0 False ''http://localhost:9002''],
      TotalActiveConnections = 5, TotalRequests = 7\<rparr>"

text \<open>One backend, up, with capacity 0 and no connection.\<close>

definition zero_capacity :: LoadBalancer where
  "zero_capacity =
     \<lparr>Servers = [backend 1 0 0 True ''http://localhost:9001''],
      TotalActiveConnections = 0, TotalRequests = 0\<rparr>"

text \<open>A backend with capacity 0 before an idle backend with capacity 3, both up.\<close>

definition zero_capacity_first :: LoadBalancer where
  "zero_capacity_first =
     \<lparr>Servers = [backend 1 0 0 True ''http://localhost:9001'',
                 backend 2 3 0 True ''http://localhost:9002''],
      TotalActiveConnections = 0, TotalRequests = 0\<rparr>"

text \<open>One backend, up, with capacity -3 and one connection.\<close>

definition negative_capacity :: LoadBalancer where
  "negative_capacity =
     \<lparr>Servers = [backend 1 (- 3) 1 True ''http://localhost:9001''],
      TotalActiveConnections = 1, TotalRequests = 1\<rparr>"

text \<open>
  A document without servers that sets \<open>TotalRequests\<close>, an exported field, to the
  largest int64; and the registry that \<open>main\<close> makes of it.
\<close>

definition requests_at_max_config :: LoadBalancerJSON where
  "requests_at_max_config =
     \<lparr>json_Servers = [], json_TotalActiveConnections = Absent,
      json_TotalRequests = JNumber 9223372036854775807\<rparr>"

definition requests_at_max :: LoadBalancer where
  "requests_at_max =
     \<lparr>Servers = [], TotalActiveConnections = 0, TotalRequests = 9223372036854775807\<rparr>"

text \<open>The \<open>servers.json\<close> of the README.\<close>

definition readme_config :: LoadBalancerJSON where
  "readme_config =
     \<lparr>json_Servers =
        [\<lparr>json_Id = JNumber 1, json_MaximumActiveConnections = JNumber 5,
          json_CurrentActiveConnections = Absent, json_Status = JBool True,
          json_URL = JString ''http://localhost:9001''\<rparr>,
         \<lparr>json_Id = JNumber 2, json_MaximumActiveConnections = JNumber 3,
          json_CurrentActiveConnections = Absent, json_Status = JBool True,
          json_URL = JString ''http://localhost:9002''\<rparr>],
      json_TotalActiveConnections = Absent, json_TotalRequests = Absent\<rparr>"

text \<open>The document \<open>{"Servers": []}\<close>.\<close>

definition empty_config :: LoadBalancerJSON where
  "empty_config =
     \<lparr>json_Servers = [], json_TotalActiveConnections = Absent, json_TotalRequests = Absent\<rparr>"

text \<open>
  A descriptor that gives an identifier, a capacity and an address, and no status; and
  the entry that the decoder and \<open>setupReversProxies\<close> make of it.
\<close>

definition descriptor :: "int \<times> int \<times> string \<Rightarrow> ServerJSON" where
  "descriptor d =
     (case d of (n, capacity, address) \<Rightarrow>
        \<lparr>json_Id = JNumber n, json_MaximumActiveConnections = JNumber capacity,
         json_CurrentActiveConnections = Absent, json_Status = Absent,
         json_URL = JString address\<rparr>)"

definition described :: "(string \<Rightarrow> url option) \<Rightarrow> int \<times> int \<times> string \<Rightarrow> Server" where
  "described url_Parse d =
     (case d of (n, capacity, address) \<Rightarrow>
        \<lparr>Id = word_of_int n, MaximumActiveConnections = word_of_int capacity,
         CurrentActiveConnections = 0, Status = False, URL = address,
         ReverseProxy = Some (SingleHostReverseProxy (url_Parse address))\<rparr>)"

definition in_int64 :: "int \<Rightarrow> bool" where
  "in_int64 n = (- (2 ^ 63) \<le> n \<and> n < 2 ^ 63)"

section \<open>Facts about the rounding\<close>

lemma round_half_even_of_int: "round_half_even (of_int n) = n"
  by (simp add: round_half_even_def)

lemma round_half_even_bounds: "\<lfloor>z\<rfloor> \<le> round_half_even z \<and> round_half_even z \<le> \<lfloor>z\<rfloor> + 1"
  by (simp add: round_half_even_def Let_def)

lemma round_half_even_mono:
  assumes "x \<le> y"
  shows "round_half_even x \<le> round_half_even y"
proof (cases "\<lfloor>x\<rfloor> < \<lfloor>y\<rfloor>")
  case True
  have "round_half_even x \<le> \<lfloor>x\<rfloor> + 1"
    using round_half_even_bounds [of x] by simp
  also have "\<dots> \<le> \<lfloor>y\<rfloor>"
    using True by simp
  also have "\<dots> \<le> round_half_even y"
    using round_half_even_bounds [of y] by simp
  finally show ?thesis .
next
  case False
  then have eq: "\<lfloor>x\<rfloor> = \<lfloor>y\<rfloor>"
    using floor_mono [OF assms] by simp
  show ?thesis
    using assms by (auto simp: round_half_even_def Let_def eq)
qed

lemma ilog2_bounds:
  assumes "0 < q"
  shows "2 powi ilog2 q \<le> q \<and> q < 2 powi (ilog2 q + 1)"
proof (cases "1 \<le> q")
  case True
  define n where "n = \<lfloor>q\<rfloor>"
  have n: "0 < n" using True by (simp add: n_def)
  have il: "ilog2 q = bitlen n - 1"
    using True by (simp add: ilog2_def n_def)
  have b1: "1 \<le> bitlen n"
    using n bitlen_eq_zero_iff [of n] bitlen_nonneg [of n] by linarith
  from bitlen_bounds [OF n]
  have lo: "2 ^ nat (bitlen n - 1) \<le> n" and hi: "n < 2 ^ nat (bitlen n)" by simp_all
  have "(2::rat) powi (bitlen n - 1) = of_int (2 ^ nat (bitlen n - 1))"
    using b1 by (simp add: power_int_def)
  also have "\<dots> \<le> of_int n"
    using lo by (simp only: of_int_le_iff)
  also have "\<dots> \<le> q"
    by (simp add: n_def)
  finally have A: "2 powi ilog2 q \<le> q" by (simp add: il)
  have "n + 1 \<le> 2 ^ nat (bitlen n)" using hi by simp
  then have "(of_int (n + 1) :: rat) \<le> of_int (2 ^ nat (bitlen n))"
    by (simp only: of_int_le_iff)
  moreover have "q < of_int (n + 1)"
    unfolding n_def by linarith
  ultimately have "q < of_int (2 ^ nat (bitlen n))" by linarith
  also have "\<dots> = 2 powi (bitlen n)"
    using b1 by (simp add: power_int_def)
  finally have B: "q < 2 powi (ilog2 q + 1)" by (simp add: il)
  from A B show ?thesis by simp
next
  case False
  then have q1: "q < 1" by simp
  define n where "n = \<lceil>1 / q\<rceil>"
  have t: "1 < 1 / q" using assms q1 by simp
  have n2: "2 \<le> n" unfolding n_def using t by linarith
  then have n1: "0 < n - 1" by simp
  define k where "k = bitlen (n - 1)"
  have il: "ilog2 q = - k"
    using False by (simp add: ilog2_def n_def k_def)
  have k1: "1 \<le> k"
    unfolding k_def using n1 bitlen_eq_zero_iff [of "n - 1"] bitlen_nonneg [of "n - 1"] by linarith
  from bitlen_bounds [OF n1]
  have lo: "2 ^ nat (k - 1) \<le> n - 1" and hi: "n - 1 < 2 ^ nat k" by (simp_all add: k_def)
  have "1 / q \<le> of_int n" unfolding n_def by linarith
  also have "\<dots> \<le> of_int (2 ^ nat k)"
    using hi by (simp only: of_int_le_iff)
  finally have "1 / q \<le> 2 ^ nat k" by simp
  then have "1 \<le> 2 ^ nat k * q"
    using assms by (simp add: field_simps)
  then have A: "2 powi (- k) \<le> q"
    using k1 by (simp add: power_int_def field_simps)
  have "(of_int (2 ^ nat (k - 1)) :: rat) \<le> of_int (n - 1)"
    using lo by (simp only: of_int_le_iff)
  also have "\<dots> < 1 / q" unfolding n_def by linarith
  finally have "2 ^ nat (k - 1) < 1 / q" by simp
  then have c: "q < inverse (2 ^ nat (k - 1))"
    using assms by (simp add: field_simps)
  have pw: "(2::rat) powi (- k + 1) = inverse (2 ^ nat (k - 1))"
  proof -
    have "- k + 1 = - (k - 1)" by simp
    then have "(2::rat) powi (- k + 1) = inverse (2 powi (k - 1))"
      by (simp only: power_int_minus)
    then show ?thesis using k1 by (simp add: power_int_def)
  qed
  have B: "q < 2 powi (- k + 1)"
    using c by (simp only: pw)
  from A B show ?thesis by (simp add: il)
qed


lemma ilog2_mono:
  assumes "0 < x" "x \<le> y"
  shows "ilog2 x \<le> ilog2 y"
proof (rule ccontr)
  assume "\<not> ilog2 x \<le> ilog2 y"
  then have "ilog2 y + 1 \<le> ilog2 x" by simp
  then have "(2::rat) powi (ilog2 y + 1) \<le> 2 powi ilog2 x"
    by (intro power_int_increasing) simp_all
  also have "\<dots> \<le> x" using ilog2_bounds [OF assms(1)] by simp
  also have "\<dots> \<le> y" by fact
  also have "\<dots> < 2 powi (ilog2 y + 1)"
    using ilog2_bounds [of y] assms by simp
  finally show False by simp
qed

lemma round53_pos:
  assumes "0 < q"
  shows "round53 q =
    of_int (round_half_even (q / 2 powi max (ilog2 q - 52) (- 1074))) * 2 powi max (ilog2 q - 52) (- 1074)"
  using assms by (simp add: round53_def Let_def)

lemma round53_minus: "round53 (- q) = - round53 q"
  by (simp add: round53_def Let_def)

lemma round53_nonneg:
  assumes "0 \<le> q"
  shows "0 \<le> round53 q"
proof (cases "q = 0")
  case True
  then show ?thesis by (simp add: round53_def)
next
  case False
  then have q: "0 < q" using assms by simp
  let ?e = "max (ilog2 q - 52) (- 1074)"
  have p: "(0::rat) < 2 powi ?e" by simp
  then have "0 \<le> q / 2 powi ?e" using q by simp
  then have "round_half_even 0 \<le> round_half_even (q / 2 powi ?e)"
    by (rule round_half_even_mono)
  then have "0 \<le> round_half_even (q / 2 powi ?e)"
    using round_half_even_of_int [of 0] by simp
  then show ?thesis
    using p by (simp add: round53_pos [OF q])
qed

lemma round53_mono_pos:
  assumes "0 < x" "x \<le> y"
  shows "round53 x \<le> round53 y"
proof -
  have y: "0 < y" using assms by simp
  let ?ex = "max (ilog2 x - 52) (- 1074)"
  let ?ey = "max (ilog2 y - 52) (- 1074)"
  have le: "?ex \<le> ?ey" using ilog2_mono [OF assms] by simp
  have px: "(0::rat) < 2 powi ?ex" and py: "(0::rat) < 2 powi ?ey"
    by simp_all
  show ?thesis
  proof (cases "?ex = ?ey")
    case True
    have "x / 2 powi ?ey \<le> y / 2 powi ?ey"
      using assms(2) py by (simp add: divide_right_mono)
    then have "round_half_even (x / 2 powi ?ey) \<le> round_half_even (y / 2 powi ?ey)"
      by (rule round_half_even_mono)
    then have "(of_int (round_half_even (x / 2 powi ?ey)) :: rat) * 2 powi ?ey
        \<le> of_int (round_half_even (y / 2 powi ?ey)) * 2 powi ?ey"
      using py by (simp add: mult_right_mono)
    then show ?thesis
      unfolding round53_pos [OF assms(1)] round53_pos [OF y] True .
  next
    case False
    then have lt: "?ex + 1 \<le> ?ey" using le by simp
    then have ey: "?ey = ilog2 y - 52" by simp
    have "(2::rat) powi 52 * 2 powi ?ey = 2 powi (?ey + 52)"
      by (simp add: power_int_add)
    also have "\<dots> \<le> y"
      using ilog2_bounds [OF y] ey by simp
    finally have "2 powi 52 \<le> y / 2 powi ?ey"
      using py by (simp add: field_simps)
    then have "of_int (2 ^ 52) \<le> y / 2 powi ?ey" by simp
    then have "round_half_even (of_int (2 ^ 52)) \<le> round_half_even (y / 2 powi ?ey)"
      by (rule round_half_even_mono)
    then have "2 ^ 52 \<le> round_half_even (y / 2 powi ?ey)"
      by (simp only: round_half_even_of_int)
    then have "(of_int (2 ^ 52) :: rat) \<le> of_int (round_half_even (y / 2 powi ?ey))"
      by (simp only: of_int_le_iff)
    then have "(of_int (2 ^ 52) :: rat) * 2 powi ?ey \<le> round53 y"
      unfolding round53_pos [OF y] using py by (simp add: mult_right_mono)
    then have Y: "(2::rat) powi (?ey + 52) \<le> round53 y"
      by (simp add: power_int_add)
    have "ilog2 x + 1 \<le> ?ex + 53" by simp
    then have "(2::rat) powi (ilog2 x + 1) \<le> 2 powi (?ex + 53)"
      by (intro power_int_increasing) simp_all
    then have "x \<le> 2 powi (?ex + 53)"
      using ilog2_bounds [OF assms(1)] by simp
    also have "\<dots> = 2 powi 53 * 2 powi ?ex"
      by (simp add: power_int_add)
    finally have "x / 2 powi ?ex \<le> 2 powi 53"
      using px by (simp add: field_simps)
    then have "x / 2 powi ?ex \<le> of_int (2 ^ 53)" by simp
    then have "round_half_even (x / 2 powi ?ex) \<le> round_half_even (of_int (2 ^ 53))"
      by (rule round_half_even_mono)
    then have "round_half_even (x / 2 powi ?ex) \<le> 2 ^ 53"
      by (simp only: round_half_even_of_int)
    then have "(of_int (round_half_even (x / 2 powi ?ex)) :: rat) \<le> of_int (2 ^ 53)"
      by (simp only: of_int_le_iff)
    then have "round53 x \<le> of_int (2 ^ 53) * 2 powi ?ex"
      unfolding round53_pos [OF assms(1)] using px by (simp add: mult_right_mono)
    also have "\<dots> = 2 powi (?ex + 53)"
      by (simp add: power_int_add)
    also have "\<dots> \<le> 2 powi (?ey + 52)"
      using lt by (intro power_int_increasing) simp_all
    also have "\<dots> \<le> round53 y" by (rule Y)
    finally show ?thesis .
  qed
qed

lemma round53_mono:
  assumes "x \<le> y"
  shows "round53 x \<le> round53 y"
proof -
  consider "0 < x" | "x \<le> 0" "0 \<le> y" | "y < 0" using assms by linarith
  then show ?thesis
  proof cases
    case 1
    then show ?thesis using assms by (rule round53_mono_pos)
  next
    case 2
    have "0 \<le> round53 (- x)" using 2(1) by (intro round53_nonneg) simp
    then have "round53 x \<le> 0" by (simp add: round53_minus)
    also have "\<dots> \<le> round53 y" using 2(2) by (rule round53_nonneg)
    finally show ?thesis .
  next
    case 3
    have "round53 (- y) \<le> round53 (- x)"
      using 3 assms by (intro round53_mono_pos) simp_all
    then show ?thesis by (simp add: round53_minus)
  qed
qed

lemma round53_1: "round53 1 = 1"
  by code_simp

lemma round53_2_63: "round53 (2 ^ 63) = 2 ^ 63"
  by code_simp

section \<open>Facts about the conversion and the load\<close>

lemma round53_of_int_ge_1:
  assumes "1 \<le> n"
  shows "1 \<le> round53 (of_int n)"
proof -
  have "(1::rat) \<le> of_int n" using assms by simp
  then have "round53 1 \<le> round53 (of_int n)" by (rule round53_mono)
  then show ?thesis by (simp only: round53_1)
qed

lemma round53_of_int_eq_0_iff: "round53 (of_int n) = 0 \<longleftrightarrow> n = 0"
proof
  assume r: "round53 (of_int n) = 0"
  show "n = 0"
  proof (rule ccontr)
    assume "n \<noteq> 0"
    then consider "1 \<le> n" | "1 \<le> - n" by linarith
    then show False
    proof cases
      case 1
      from round53_of_int_ge_1 [OF 1] r show False by simp
    next
      case 2
      from round53_of_int_ge_1 [OF 2] have "1 \<le> round53 (- of_int n)" by simp
      with r show False by (simp add: round53_minus)
    qed
  qed
next
  assume "n = 0"
  then show "round53 (of_int n) = 0" by (simp add: round53_def)
qed

lemma round53_int64_bounds:
  assumes "- (2 ^ 63) \<le> n" "n \<le> 2 ^ 63"
  shows "\<bar>round53 (of_int n)\<bar> \<le> 2 ^ 63"
proof -
  have "(of_int n :: rat) \<le> 2 ^ 63" using assms(2) by (metis of_int_le_iff of_int_numeral of_int_power)
  then have "round53 (of_int n) \<le> round53 (2 ^ 63)" by (rule round53_mono)
  then have hi: "round53 (of_int n) \<le> 2 ^ 63" by (simp only: round53_2_63)
  have "- (2 ^ 63) \<le> (of_int n :: rat)" using assms(1)
    by (metis of_int_le_iff of_int_minus of_int_numeral of_int_power)
  then have "round53 (- (2 ^ 63)) \<le> round53 (of_int n)" by (rule round53_mono)
  then have lo: "- (2 ^ 63) \<le> round53 (of_int n)"
    by (simp only: round53_minus round53_2_63)
  from lo hi show ?thesis by simp
qed

lemma float64_of_int64_Fin: "float64_of_int64 w = Fin (round53 (of_int (sint w)))"
proof -
  have "- (2 ^ 63) \<le> sint w" using sint_ge [of w] by simp
  moreover have "sint w \<le> 2 ^ 63" using sint_lt [of w] by simp
  ultimately have "\<bar>round53 (of_int (sint w))\<bar> \<le> 2 ^ 63"
    by (rule round53_int64_bounds)
  moreover have "(2::rat) ^ 63 < 2 ^ 1024" by simp
  ultimately have "\<not> 2 ^ 1024 \<le> \<bar>round53 (of_int (sint w))\<bar>" by linarith
  then show ?thesis
    by (simp add: float64_of_int64_def to_float64_def Let_def)
qed

lemma to_float64_not_NaN: "to_float64 q \<noteq> NaN"
  by (simp add: to_float64_def Let_def)

lemma f_div_Fin_NaN_iff: "f_div (Fin a) (Fin c) = NaN \<longleftrightarrow> c = 0 \<and> a = 0"
  by (simp add: to_float64_not_NaN)

lemma round53_sint_eq_0_iff: "round53 (of_int (sint w)) = 0 \<longleftrightarrow> w = 0"
  by (simp only: round53_of_int_eq_0_iff signed_eq_0_iff)

lemma load_NaN_iff:
  "load s = NaN \<longleftrightarrow> MaximumActiveConnections s = 0 \<and> CurrentActiveConnections s = 0"
  by (simp only: load_def float64_of_int64_Fin f_div_Fin_NaN_iff round53_sint_eq_0_iff)

lemma not_f_ge_iff: "x \<noteq> NaN \<Longrightarrow> \<not> f_ge x f_one \<longleftrightarrow> f_lt x f_one"
  by (simp add: f_ge_def f_one_def)

lemma round53_lt_1D:
  assumes "round53 x < 1"
  shows "x < 1"
proof (rule ccontr)
  assume "\<not> x < 1"
  then have "1 \<le> x" by simp
  then have "round53 1 \<le> round53 x" by (rule round53_mono)
  with assms show False by (simp add: round53_1)
qed

lemma to_float64_lt_oneD:
  assumes "f_lt (to_float64 x) f_one"
  shows "x < 1"
proof (cases "2 ^ 1024 \<le> \<bar>round53 x\<bar>")
  case True
  with assms have "x < 0"
    by (auto simp: to_float64_def Let_def f_one_def split: if_splits)
  then show ?thesis by simp
next
  case False
  with assms have "round53 x < 1"
    by (simp add: to_float64_def Let_def f_one_def)
  then show ?thesis by (rule round53_lt_1D)
qed

lemma load_below_capacity:
  assumes cap: "0 < sint (MaximumActiveConnections s)"
    and sel: "\<not> f_ge (load s) f_one"
  shows "f_lt (load s) f_one \<and> sint (CurrentActiveConnections s) < sint (MaximumActiveConnections s)"
proof -
  define a where "a = round53 (of_int (sint (CurrentActiveConnections s)))"
  define c where "c = round53 (of_int (sint (MaximumActiveConnections s)))"
  have c1: "1 \<le> c"
    unfolding c_def using cap by (intro round53_of_int_ge_1) simp
  have ld: "load s = to_float64 (a / c)"
    using c1 by (simp only: load_def float64_of_int64_Fin a_def [symmetric] c_def [symmetric]) simp
  have "load s \<noteq> NaN" by (simp add: ld to_float64_not_NaN)
  then have lt: "f_lt (load s) f_one" using sel by (simp add: not_f_ge_iff)
  then have "a / c < 1" unfolding ld by (rule to_float64_lt_oneD)
  then have ac: "a < c" using c1 by (simp add: field_simps)
  have "sint (CurrentActiveConnections s) < sint (MaximumActiveConnections s)"
  proof (rule ccontr)
    assume "\<not> sint (CurrentActiveConnections s) < sint (MaximumActiveConnections s)"
    then have "(of_int (sint (MaximumActiveConnections s)) :: rat) \<le> of_int (sint (CurrentActiveConnections s))"
      by (simp only: of_int_le_iff)
    then have "c \<le> a" unfolding a_def c_def by (rule round53_mono)
    with ac show False by simp
  qed
  with lt show ?thesis by simp
qed

section \<open>Facts about the selector\<close>

lemma selectServer_body_Servers:
  "Servers lb = Servers lb' \<Longrightarrow> selectServer_body lb i opt = selectServer_body lb' i opt"
  by (simp add: selectServer_body_def Let_def split: option.splits)

lemma selectServer_loop_Servers:
  "Servers lb = Servers lb' \<Longrightarrow> selectServer_loop lb i opt = selectServer_loop lb' i opt"
proof (induction lb i opt rule: selectServer_loop.induct)
  case (1 lb i opt)
  show ?case
    using 1 selectServer_body_Servers [of lb lb' i opt]
    by (subst selectServer_loop.simps, subst (2) selectServer_loop.simps) simp
qed

lemma selectServer_body_sound:
  "selectServer_body lb i opt = Some k \<Longrightarrow>
     opt = Some k \<or>
     (k = i \<and> Status (Servers lb ! k) \<and> \<not> f_ge (load (Servers lb ! k)) f_one)"
  by (auto simp: selectServer_body_def Let_def split: if_splits option.splits)

lemma selectServer_loop_sound:
  "selectServer_loop lb i opt = Some k \<Longrightarrow>
     opt = Some k \<or>
     (i \<le> k \<and> k < length (Servers lb) \<and> Status (Servers lb ! k) \<and>
      \<not> f_ge (load (Servers lb ! k)) f_one)"
proof (induction lb i opt rule: selectServer_loop.induct)
  case (1 lb i opt)
  show ?case
  proof (cases "i < length (Servers lb)")
    case True
    with "1.prems" have "selectServer_loop lb (i + 1) (selectServer_body lb i opt) = Some k"
      by (subst (asm) selectServer_loop.simps) simp
    from "1.IH" [OF True this] show ?thesis
    proof
      assume "selectServer_body lb i opt = Some k"
      from selectServer_body_sound [OF this] True show ?thesis by auto
    next
      assume "i + 1 \<le> k \<and> k < length (Servers lb) \<and> Status (Servers lb ! k) \<and>
        \<not> f_ge (load (Servers lb ! k)) f_one"
      then show ?thesis by simp
    qed
  next
    case False
    with "1.prems" show ?thesis
      by (subst (asm) selectServer_loop.simps) simp
  qed
qed

lemma f_lt_irrefl: "\<not> f_lt a a"
  by (cases a) simp_all

lemma f_lt_trans: "f_lt a b \<Longrightarrow> f_lt b c \<Longrightarrow> f_lt a c"
  by (cases a; cases b; cases c) simp_all

lemma f_lt_le_trans: "f_lt a b \<Longrightarrow> \<not> f_lt c b \<Longrightarrow> c \<noteq> NaN \<Longrightarrow> f_lt a c"
  by (cases a; cases b; cases c) simp_all

lemma selectServer_body_excluded:
  "\<not> Status (Servers lb ! i) \<or> f_ge (load (Servers lb ! i)) f_one \<Longrightarrow>
     selectServer_body lb i opt = opt"
  by (auto simp: selectServer_body_def Let_def)

lemma selectServer_loop_excluded:
  "(\<And>k. i \<le> k \<Longrightarrow> k < length (Servers lb) \<Longrightarrow>
       \<not> Status (Servers lb ! k) \<or> f_ge (load (Servers lb ! k)) f_one) \<Longrightarrow>
     selectServer_loop lb i opt = opt"
proof (induction lb i opt rule: selectServer_loop.induct)
  case (1 lb i opt)
  show ?case
  proof (cases "i < length (Servers lb)")
    case True
    have b: "selectServer_body lb i opt = opt"
      using "1.prems" [of i] True by (intro selectServer_body_excluded) simp
    have "selectServer_loop lb (i + 1) (selectServer_body lb i opt) = selectServer_body lb i opt"
      using True "1.prems" by (intro "1.IH") simp_all
    then show ?thesis
      using True b by (subst selectServer_loop.simps) simp
  next
    case False
    then show ?thesis by (subst selectServer_loop.simps) simp
  qed
qed

lemma selectServer_body_least:
  assumes H: "\<And>k. k < length (Servers lb) \<Longrightarrow> Status (Servers lb ! k) \<Longrightarrow> load (Servers lb ! k) \<noteq> NaN"
    and i: "i < length (Servers lb)"
    and inv: "least_loaded_upto lb i opt"
  shows "least_loaded_upto lb (Suc i) (selectServer_body lb i opt)"
proof (cases "passes_guard lb i")
  case False
  then have b: "selectServer_body lb i opt = opt"
    using i by (intro selectServer_body_excluded) (auto simp: passes_guard_def)
  show ?thesis
    using inv False unfolding b
    by (auto simp: least_loaded_upto_def less_Suc_eq split: option.splits)
next
  case True
  then have g: "Status (Servers lb ! i)" "\<not> f_ge (load (Servers lb ! i)) f_one"
    by (simp_all add: passes_guard_def)
  show ?thesis
  proof (cases opt)
    case None
    then have b: "selectServer_body lb i opt = Some i"
      using g by (simp add: selectServer_body_def Let_def)
    show ?thesis
      using inv None True unfolding b
      by (auto simp: least_loaded_upto_def less_Suc_eq f_lt_irrefl)
  next
    case (Some j)
    from inv Some have j: "j < i" "passes_guard lb j"
      and mn: "\<And>k. k < i \<Longrightarrow> passes_guard lb k \<Longrightarrow>
                 \<not> f_lt (load (Servers lb ! k)) (load (Servers lb ! j))"
      and fs: "\<And>k. k < j \<Longrightarrow> passes_guard lb k \<Longrightarrow>
                 f_lt (load (Servers lb ! j)) (load (Servers lb ! k))"
      by (simp_all add: least_loaded_upto_def)
    show ?thesis
    proof (cases "f_lt (load (Servers lb ! i)) (load (Servers lb ! j))")
      case lt: True
      then have b: "selectServer_body lb i opt = Some i"
        using g Some by (simp add: selectServer_body_def Let_def)
      have 1: "\<not> f_lt (load (Servers lb ! k)) (load (Servers lb ! i))"
        if "k < Suc i" "passes_guard lb k" for k
      proof (cases "k = i")
        case True
        then show ?thesis by (simp add: f_lt_irrefl)
      next
        case False
        then have "k < i" using that by simp
        from mn [OF this that(2)] f_lt_trans [OF _ lt] show ?thesis by blast
      qed
      have 2: "f_lt (load (Servers lb ! i)) (load (Servers lb ! k))"
        if "k < i" "passes_guard lb k" for k
      proof -
        have "load (Servers lb ! k) \<noteq> NaN"
          using that(2) by (intro H) (simp_all add: passes_guard_def)
        from f_lt_le_trans [OF lt mn [OF that] this] show ?thesis .
      qed
      show ?thesis
        unfolding b using True 1 2 by (simp add: least_loaded_upto_def)
    next
      case nlt: False
      then have b: "selectServer_body lb i opt = Some j"
        using g Some by (simp add: selectServer_body_def Let_def)
      have 1: "\<not> f_lt (load (Servers lb ! k)) (load (Servers lb ! j))"
        if "k < Suc i" "passes_guard lb k" for k
        using that mn [of k] nlt by (cases "k = i") simp_all
      show ?thesis
        unfolding b using j 1 fs by (simp add: least_loaded_upto_def)
    qed
  qed
qed

lemma selectServer_loop_least:
  assumes H: "\<And>k. k < length (Servers lb) \<Longrightarrow> Status (Servers lb ! k) \<Longrightarrow> load (Servers lb ! k) \<noteq> NaN"
  shows "i \<le> length (Servers lb) \<Longrightarrow> least_loaded_upto lb i opt \<Longrightarrow>
    least_loaded_upto lb (length (Servers lb)) (selectServer_loop lb i opt)"
  using H
proof (induction lb i opt rule: selectServer_loop.induct)
  case (1 lb i opt)
  show ?case
  proof (cases "i < length (Servers lb)")
    case True
    have "least_loaded_upto lb (Suc i) (selectServer_body lb i opt)"
      using "1.prems"(3) True "1.prems"(2) by (rule selectServer_body_least)
    then have "least_loaded_upto lb (length (Servers lb))
        (selectServer_loop lb (i + 1) (selectServer_body lb i opt))"
      using True "1.prems"(3) by (intro "1.IH") simp_all
    then show ?thesis
      using True by (subst selectServer_loop.simps) simp
  next
    case False
    with "1.prems" have "i = length (Servers lb)" by simp
    with "1.prems"(2) show ?thesis
      by (subst selectServer_loop.simps) simp
  qed
qed

section \<open>The load in closed form\<close>

lemma round53_abs_le:
  assumes "\<bar>x\<bar> \<le> 2 ^ 63"
  shows "\<bar>round53 x\<bar> \<le> 2 ^ 63"
proof -
  have "x \<le> 2 ^ 63" using assms by simp
  then have "round53 x \<le> round53 (2 ^ 63)" by (rule round53_mono)
  then have hi: "round53 x \<le> 2 ^ 63" by (simp only: round53_2_63)
  have "- (2 ^ 63) \<le> x" using assms by simp
  then have "round53 (- (2 ^ 63)) \<le> round53 x" by (rule round53_mono)
  then have lo: "- (2 ^ 63) \<le> round53 x"
    by (simp only: round53_minus round53_2_63)
  from lo hi show ?thesis by simp
qed

lemma to_float64_Fin:
  assumes "\<bar>x\<bar> \<le> 2 ^ 63"
  shows "to_float64 x = Fin (round53 x)"
proof -
  have "(2::rat) ^ 63 < 2 ^ 1024" by simp
  with round53_abs_le [OF assms] have "\<not> 2 ^ 1024 \<le> \<bar>round53 x\<bar>" by linarith
  then show ?thesis by (simp add: to_float64_def Let_def)
qed

lemma load_eq:
  assumes "MaximumActiveConnections s \<noteq> 0"
  shows "load s = Fin (round53 (round53 (of_int (sint (CurrentActiveConnections s))) /
                               round53 (of_int (sint (MaximumActiveConnections s)))))"
proof -
  define a where "a = round53 (of_int (sint (CurrentActiveConnections s)))"
  define c where "c = round53 (of_int (sint (MaximumActiveConnections s)))"
  have c0: "c \<noteq> 0"
    unfolding c_def using assms by (simp only: round53_sint_eq_0_iff) simp
  have a: "\<bar>a\<bar> \<le> 2 ^ 63"
    unfolding a_def using sint_ge [of "CurrentActiveConnections s"] sint_lt [of "CurrentActiveConnections s"]
    by (intro round53_int64_bounds) simp_all
  have c1: "1 \<le> \<bar>c\<bar>"
  proof -
    from assms have "sint (MaximumActiveConnections s) \<noteq> 0"
      by (simp only: signed_eq_0_iff) simp
    then consider "1 \<le> sint (MaximumActiveConnections s)" | "1 \<le> - sint (MaximumActiveConnections s)"
      by linarith
    then show ?thesis
    proof cases
      case 1
      from round53_of_int_ge_1 [OF 1] show ?thesis by (simp add: c_def)
    next
      case 2
      from round53_of_int_ge_1 [OF 2] have "1 \<le> - c" by (simp add: c_def round53_minus)
      then show ?thesis by simp
    qed
  qed
  have "\<bar>a\<bar> / \<bar>c\<bar> \<le> \<bar>a\<bar> / 1"
    using c1 by (intro divide_left_mono) simp_all
  then have "\<bar>a / c\<bar> \<le> 2 ^ 63" using a by simp
  then have "to_float64 (a / c) = Fin (round53 (a / c))" by (rule to_float64_Fin)
  then show ?thesis
    using c0 by (simp only: load_def float64_of_int64_Fin a_def [symmetric] c_def [symmetric]) simp
qed

lemma load_idle:
  assumes "MaximumActiveConnections s \<noteq> 0" "CurrentActiveConnections s = 0"
  shows "load s = Fin 0"
  using assms by (simp add: load_eq round53_def)

lemma load_full:
  assumes "MaximumActiveConnections s \<noteq> 0" "CurrentActiveConnections s = MaximumActiveConnections s"
  shows "load s = Fin 1"
proof -
  have "round53 (of_int (sint (MaximumActiveConnections s))) \<noteq> 0"
    using assms(1) by (simp only: round53_sint_eq_0_iff) simp
  then show ?thesis
    using assms by (simp add: load_eq round53_1)
qed

lemma load_zero_capacity:
  assumes "MaximumActiveConnections s = 0" "CurrentActiveConnections s = 0"
  shows "load s = NaN"
  using assms by (simp only: load_NaN_iff)

section \<open>More about the selector\<close>

lemma selectServer_Servers: "Servers lb = Servers lb' \<Longrightarrow> selectServer lb = selectServer lb'"
  unfolding selectServer_def by (rule selectServer_loop_Servers)

lemma selectServer_after_count:
  "selectServer (add_counter TotalRequestsCounter d lb) = selectServer lb"
  by (rule selectServer_Servers) simp

lemma selectServer_body_None:
  "selectServer_body lb i opt = None \<Longrightarrow>
     opt = None \<and> (\<not> Status (Servers lb ! i) \<or> f_ge (load (Servers lb ! i)) f_one)"
  by (auto simp: selectServer_body_def Let_def split: if_splits option.splits)

lemma selectServer_loop_None:
  "selectServer_loop lb i opt = None \<Longrightarrow> i \<le> k \<Longrightarrow> k < length (Servers lb) \<Longrightarrow>
     opt = None \<and> (\<not> Status (Servers lb ! k) \<or> f_ge (load (Servers lb ! k)) f_one)"
proof (induction lb i opt arbitrary: k rule: selectServer_loop.induct)
  case (1 lb i opt)
  from "1.prems" have i: "i < length (Servers lb)" by simp
  with "1.prems"(1) have n: "selectServer_loop lb (i + 1) (selectServer_body lb i opt) = None"
    by (subst (asm) selectServer_loop.simps) simp
  have b: "selectServer_body lb i opt = None"
  proof (cases "i + 1 < length (Servers lb)")
    case True
    from "1.IH" [OF i n _ True, of] show ?thesis by simp
  next
    case False
    with n show ?thesis by (subst (asm) selectServer_loop.simps) simp
  qed
  show ?case
  proof (cases "k = i")
    case True
    with selectServer_body_None [OF b] show ?thesis by simp
  next
    case False
    then have "i + 1 \<le> k" using "1.prems"(2) by simp
    from "1.IH" [OF i n this "1.prems"(3)] selectServer_body_None [OF b] show ?thesis by simp
  qed
qed

lemma selectServer_None_iff:
  "selectServer lb = None \<longleftrightarrow>
     (\<forall>k<length (Servers lb). \<not> Status (Servers lb ! k) \<or> f_ge (load (Servers lb ! k)) f_one)"
proof
  assume n: "selectServer lb = None"
  show "\<forall>k<length (Servers lb). \<not> Status (Servers lb ! k) \<or> f_ge (load (Servers lb ! k)) f_one"
  proof (intro allI impI)
    fix k assume "k < length (Servers lb)"
    with selectServer_loop_None [of lb 0 None k] n show
      "\<not> Status (Servers lb ! k) \<or> f_ge (load (Servers lb ! k)) f_one"
      by (simp add: selectServer_def)
  qed
next
  assume "\<forall>k<length (Servers lb). \<not> Status (Servers lb ! k) \<or> f_ge (load (Servers lb ! k)) f_one"
  then show "selectServer lb = None"
    unfolding selectServer_def by (intro selectServer_loop_excluded) simp
qed

lemma at_capacity_excluded:
  assumes cap: "0 < sint (MaximumActiveConnections s)"
    and full: "sint (MaximumActiveConnections s) \<le> sint (CurrentActiveConnections s)"
  shows "f_ge (load s) f_one"
proof -
  define a where "a = round53 (of_int (sint (CurrentActiveConnections s)))"
  define c where "c = round53 (of_int (sint (MaximumActiveConnections s)))"
  have c1: "1 \<le> c"
    unfolding c_def using cap by (intro round53_of_int_ge_1) simp
  have "(of_int (sint (MaximumActiveConnections s)) :: rat) \<le> of_int (sint (CurrentActiveConnections s))"
    using full by (simp only: of_int_le_iff)
  then have "c \<le> a" unfolding a_def c_def by (rule round53_mono)
  then have "1 \<le> a / c" using c1 by (simp add: field_simps)
  then have "round53 1 \<le> round53 (a / c)" by (rule round53_mono)
  then have r: "1 \<le> round53 (a / c)" by (simp only: round53_1)
  have "MaximumActiveConnections s \<noteq> 0" using cap by auto
  then have "load s = Fin (round53 (a / c))"
    unfolding a_def c_def by (rule load_eq)
  then show ?thesis using r by (simp add: f_ge_def f_one_def)
qed

section \<open>Facts about the dispatcher\<close>

lemma ServeHTTP_begin_unavailable:
  assumes "selectServer lb = None"
  shows "ServeHTTP_begin lb =
    (None, lb\<lparr>TotalRequests := TotalRequests lb + 1\<rparr>, [(TotalRequestsCounter, 1)])"
  using assms selectServer_after_count [of 1 lb]
  by (simp add: ServeHTTP_begin_def atomic_AddInt64_def Let_def)

lemma ServeHTTP_begin_selected:
  assumes "selectServer lb = Some i"
  shows "ServeHTTP_begin lb =
    (Some i,
     lb\<lparr>TotalRequests := TotalRequests lb + 1,
        Servers := (Servers lb)
          [i := (Servers lb ! i)\<lparr>CurrentActiveConnections :=
                   CurrentActiveConnections (Servers lb ! i) + 1\<rparr>],
        TotalActiveConnections := TotalActiveConnections lb + 1\<rparr>,
     [(TotalRequestsCounter, 1),
      (CurrentActiveConnectionsCounter i, 1), (TotalActiveConnectionsCounter, 1)])"
proof -
  have s: "selectServer (add_counter TotalRequestsCounter 1 lb) = Some i"
    using assms by (simp only: selectServer_after_count)
  show ?thesis
    using s by (simp add: ServeHTTP_begin_def atomic_AddInt64_def Let_def)
qed

lemma selected_in_range:
  assumes "selectServer lb = Some i"
  shows "i < length (Servers lb)"
proof -
  from assms have "selectServer_loop lb 0 None = Some i" by (simp add: selectServer_def)
  from selectServer_loop_sound [OF this] show ?thesis by simp
qed

lemma ServeHTTP_unavailable:
  assumes "selectServer lb = None"
  shows "ServeHTTP proxy_ServeHTTP lb =
    (ServiceUnavailable, lb\<lparr>TotalRequests := TotalRequests lb + 1\<rparr>, [(TotalRequestsCounter, 1)])"
  by (simp add: ServeHTTP_def ServeHTTP_begin_unavailable [OF assms])

lemma ServeHTTP_forwarded:
  assumes "selectServer lb = Some i"
  shows "ServeHTTP proxy_ServeHTTP lb =
    (case forward proxy_ServeHTTP (Servers lb ! i) of
       Returned \<Rightarrow> Forwarded i | Panicked \<Rightarrow> PanicPropagated i,
     lb\<lparr>TotalRequests := TotalRequests lb + 1\<rparr>,
     [(TotalRequestsCounter, 1),
      (CurrentActiveConnectionsCounter i, 1), (TotalActiveConnectionsCounter, 1),
      (CurrentActiveConnectionsCounter i, - 1), (TotalActiveConnectionsCounter, - 1)])"
  using selected_in_range [OF assms]
  by (simp add: ServeHTTP_def ServeHTTP_begin_selected [OF assms] atomic_AddInt64_def Let_def
      forward_def list_update_same_conv)

lemma add_counter_commute:
  "add_counter c d (add_counter c' d' lb) = add_counter c' d' (add_counter c d lb)"
proof (cases c; cases c')
  fix i j
  assume c: "c = CurrentActiveConnectionsCounter i" "c' = CurrentActiveConnectionsCounter j"
  show ?thesis
  proof (cases "i = j")
    case True
    then show ?thesis
      unfolding c by (cases "length (Servers lb) \<le> j") (simp_all add: add.commute add.left_commute list_update_beyond)
  next
    case False
    then show ?thesis
      unfolding c by (simp add: list_update_swap)
  qed
qed simp_all

lemma add_counter_cancel: "add_counter c (- d) (add_counter c d lb) = lb"
proof (cases c)
  case (CurrentActiveConnectionsCounter i)
  then show ?thesis
    by (cases "length (Servers lb) \<le> i") (simp_all add: list_update_beyond)
qed simp_all

lemma atomic_adds_commute:
  "add_counter c d (atomic_adds ops lb) = atomic_adds ops (add_counter c d lb)"
proof (induction ops arbitrary: lb)
  case Nil
  then show ?case by (simp add: atomic_adds_def)
next
  case (Cons op ops)
  have "add_counter c d (atomic_adds (op # ops) lb) =
      add_counter c d (atomic_adds ops (add_counter (fst op) (snd op) lb))"
    by (simp add: atomic_adds_def)
  also have "\<dots> = atomic_adds ops (add_counter c d (add_counter (fst op) (snd op) lb))"
    by (rule Cons.IH)
  also have "\<dots> = atomic_adds ops (add_counter (fst op) (snd op) (add_counter c d lb))"
    by (simp only: add_counter_commute)
  finally show ?case by (simp add: atomic_adds_def)
qed

lemma increments_cancel_under_interleaving:
  "add_counter c' (- d') (add_counter c (- d)
     (atomic_adds ops (add_counter c' d' (add_counter c d lb)))) = atomic_adds ops lb"
proof -
  have "atomic_adds ops (add_counter c' d' (add_counter c d lb)) =
      add_counter c' d' (add_counter c d (atomic_adds ops lb))"
    by (simp only: atomic_adds_commute)
  then show ?thesis
    by (simp only: add_counter_commute [of c "- d" c' d'] add_counter_cancel)
qed

section \<open>Facts about the counters and the health check\<close>

lemma sint_succ:
  fixes x :: "64 word"
  assumes "sint x < 2 ^ 63 - 1"
  shows "sint (x + 1) = sint x + 1"
proof -
  have "- (2 ^ 63) \<le> sint x" using sint_ge [of x] by simp
  then have "signed_take_bit 63 (sint x + 1) = sint x + 1"
    using assms by (intro signed_take_bit_int_eq_self) simp_all
  then show ?thesis by (simp add: sint_word_add)
qed

lemma healthCheck_probe_TotalRequests:
  "TotalRequests (healthCheck_probe client_Get i lb) = TotalRequests lb"
  by (simp add: healthCheck_probe_def)

lemma fold_healthCheck_probe_TotalRequests:
  "TotalRequests (fold (healthCheck_probe client_Get) is lb) = TotalRequests lb"
  by (induction "is" arbitrary: lb) (simp_all add: healthCheck_probe_TotalRequests)

lemma newStatus_iff: "newStatus r \<longleftrightarrow> r = ProbeResponse 200"
  by (cases r) (simp_all add: newStatus_def)

lemma healthCheck_probe_Status:
  assumes "i < length (Servers lb)"
  shows "Status (Servers (healthCheck_probe client_Get i lb) ! i) \<longleftrightarrow>
           client_Get (URL (Servers lb ! i) @ ''/health'') = ProbeResponse 200"
  using assms by (simp add: healthCheck_probe_def newStatus_iff)

lemma healthCheck_probe_others:
  assumes "k \<noteq> i"
  shows "Servers (healthCheck_probe client_Get i lb) ! k = Servers lb ! k"
  using assms by (simp add: healthCheck_probe_def)

lemma healthCheck_probe_fields:
  assumes "i < length (Servers lb)"
  shows "Servers (healthCheck_probe client_Get i lb) ! i =
           (Servers lb ! i)\<lparr>Status := newStatus (client_Get (URL (Servers lb ! i) @ ''/health''))\<rparr>"
  using assms by (simp add: healthCheck_probe_def)

lemma fold_healthCheck_probe:
  assumes "n \<le> length (Servers lb)"
  shows "fold (healthCheck_probe client_Get) [0 ..< n] lb =
    lb\<lparr>Servers :=
         map (\<lambda>s. s\<lparr>Status := newStatus (client_Get (URL s @ ''/health''))\<rparr>) (take n (Servers lb))
         @ drop n (Servers lb)\<rparr>"
  using assms
proof (induction n)
  case 0
  then show ?case by simp
next
  case (Suc n)
  then have n: "n < length (Servers lb)" by simp
  let ?h = "\<lambda>s. s\<lparr>Status := newStatus (client_Get (URL s @ ''/health''))\<rparr>"
  have d: "drop n (Servers lb) = Servers lb ! n # drop (Suc n) (Servers lb)"
    using n by (simp add: Cons_nth_drop_Suc)
  have l: "length (map ?h (take n (Servers lb))) = n" using n by simp
  have "(map ?h (take n (Servers lb)) @ drop n (Servers lb)) ! n = Servers lb ! n"
    using l d by (simp add: nth_append)
  moreover have "(map ?h (take n (Servers lb)) @ drop n (Servers lb))[n := x]
      = map ?h (take n (Servers lb)) @ x # drop (Suc n) (Servers lb)" for x
    using l d by (simp add: list_update_append)
  ultimately show ?case
    using Suc n by (simp add: healthCheck_probe_def take_Suc_conv_app_nth)
qed

lemma healthCheck_cycle_eq:
  "healthCheck_cycle client_Get lb =
     lb\<lparr>Servers := map (\<lambda>s. s\<lparr>Status := newStatus (client_Get (URL s @ ''/health''))\<rparr>) (Servers lb)\<rparr>"
  by (simp add: healthCheck_cycle_def fold_healthCheck_probe)

section \<open>Facts about the startup\<close>

lemma unmarshal_atomic_Bool_unchanged: "fst (unmarshal_atomic_Bool v b) = b"
  by (cases v) simp_all

lemma unmarshal_atomic_Bool_JBool: "snd (unmarshal_atomic_Bool (JBool x) b)"
  by simp

lemma unmarshal_Server_Status: "Status (fst (unmarshal_Server j)) = False"
  by (simp add: unmarshal_Server_def zero_Server_def case_prod_beta unmarshal_atomic_Bool_unchanged)

lemma unmarshal_Server_JBool:
  assumes "json_Status j = JBool x"
  shows "snd (unmarshal_Server j)"
  using assms by (simp add: unmarshal_Server_def zero_Server_def case_prod_beta)

lemma unmarshal_LoadBalancer_JBool:
  assumes "j \<in> set (json_Servers c)" "json_Status j = JBool x"
  shows "snd (unmarshal_LoadBalancer c)"
proof -
  from assms have "list_ex snd (map unmarshal_Server (json_Servers c))"
    by (auto simp: list_ex_iff intro!: bexI [of _ j] unmarshal_Server_JBool)
  then show ?thesis
    by (simp add: unmarshal_LoadBalancer_def case_prod_beta)
qed

lemma main_startup_JBool:
  assumes "j \<in> set (json_Servers c)" "json_Status j = JBool x"
  shows "main_startup url_Parse (Document c) = ExitUnmarshalError"
  using unmarshal_LoadBalancer_JBool [OF assms]
  by (simp add: main_startup_def case_prod_beta)

lemma main_startup_Started_Status:
  assumes "main_startup url_Parse f = Started lb" "s \<in> set (Servers lb)"
  shows "\<not> Status s"
proof -
  from assms(1) obtain c where f: "f = Document c"
    and lb: "lb = setupReversProxies url_Parse (fst (unmarshal_LoadBalancer c))"
    by (cases f) (auto simp: main_startup_def case_prod_beta split: if_splits)
  from assms(2) obtain j where "s = (fst (unmarshal_Server j))\<lparr>ReverseProxy :=
      Some (SingleHostReverseProxy (url_Parse (URL (fst (unmarshal_Server j)))))\<rparr>"
    unfolding lb by (auto simp: setupReversProxies_def unmarshal_LoadBalancer_def case_prod_beta)
  then show ?thesis by (simp add: unmarshal_Server_Status)
qed

lemma unmarshal_Server_descriptor:
  assumes "in_int64 (fst d)" "in_int64 (fst (snd d))"
  shows "unmarshal_Server (descriptor d) =
    ((described url_Parse d)\<lparr>ReverseProxy := None\<rparr>, False)"
  using assms
  by (cases d) (simp add: unmarshal_Server_def descriptor_def described_def zero_Server_def
      in_int64_def case_prod_beta)

lemma setup_described:
  "(described url_Parse d)\<lparr>ReverseProxy :=
      Some (SingleHostReverseProxy (url_Parse (URL (described url_Parse d))))\<rparr>
   = described url_Parse d"
  by (cases d) (simp add: described_def)

lemma main_startup_descriptors:
  assumes "list_all (\<lambda>d. in_int64 (fst d) \<and> in_int64 (fst (snd d))) ds"
  shows "main_startup url_Parse
           (Document \<lparr>json_Servers = map descriptor ds,
                      json_TotalActiveConnections = Absent, json_TotalRequests = Absent\<rparr>) =
         Started \<lparr>Servers = map (described url_Parse) ds,
                  TotalActiveConnections = 0, TotalRequests = 0\<rparr>"
proof -
  have p: "unmarshal_Server (descriptor d) = ((described url_Parse d)\<lparr>ReverseProxy := None\<rparr>, False)"
    if "d \<in> set ds" for d
    using assms that by (intro unmarshal_Server_descriptor) (simp_all add: list_all_iff)
  show ?thesis
    by (simp add: main_startup_def unmarshal_LoadBalancer_def case_prod_beta list_ex_iff p
        setupReversProxies_def setup_described)
qed

lemma main_startup_empty_config:
  "main_startup url_Parse (Document empty_config) =
     Started \<lparr>Servers = [], TotalActiveConnections = 0, TotalRequests = 0\<rparr>"
  by (simp add: main_startup_def unmarshal_LoadBalancer_def empty_config_def setupReversProxies_def
      case_prod_beta)

lemma main_startup_readme_config:
  "main_startup url_Parse (Document readme_config) = ExitUnmarshalError"
  by (simp add: main_startup_def unmarshal_LoadBalancer_def unmarshal_Server_def readme_config_def
      case_prod_beta)

section \<open>More about the counters and the load\<close>

lemma handler_trace_net:
  "atomic_adds
     [(CurrentActiveConnectionsCounter i, - 1), (TotalActiveConnectionsCounter, - 1)]
     (atomic_adds others
       (atomic_adds
         [(TotalRequestsCounter, 1),
          (CurrentActiveConnectionsCounter i, 1), (TotalActiveConnectionsCounter, 1)] lb')) =
   atomic_adds others (add_counter TotalRequestsCounter 1 lb')"
proof -
  have "atomic_adds
     [(CurrentActiveConnectionsCounter i, - 1), (TotalActiveConnectionsCounter, - 1)]
     (atomic_adds others
       (atomic_adds
         [(TotalRequestsCounter, 1),
          (CurrentActiveConnectionsCounter i, 1), (TotalActiveConnectionsCounter, 1)] lb')) =
     add_counter TotalActiveConnectionsCounter (- 1)
       (add_counter (CurrentActiveConnectionsCounter i) (- 1)
         (atomic_adds others
           (add_counter TotalActiveConnectionsCounter 1
             (add_counter (CurrentActiveConnectionsCounter i) 1
               (add_counter TotalRequestsCounter 1 lb')))))"
    by (simp add: atomic_adds_def)
  also have "\<dots> = atomic_adds others (add_counter TotalRequestsCounter 1 lb')"
    by (rule increments_cancel_under_interleaving)
  finally show ?thesis .
qed

lemma sint_succ_max:
  fixes x :: "64 word"
  assumes "sint x = 2 ^ 63 - 1"
  shows "sint (x + 1) = - (2 ^ 63)"
proof -
  have "x = word_of_int (sint x)" by simp
  then have "x = 9223372036854775807" using assms by simp
  then show ?thesis by simp
qed

lemma load_negative_capacity:
  assumes cap: "sint (MaximumActiveConnections s) < 0"
    and cur: "0 \<le> sint (CurrentActiveConnections s)"
  shows "\<not> f_ge (load s) f_one"
proof -
  define a where "a = round53 (of_int (sint (CurrentActiveConnections s)))"
  define c where "c = round53 (of_int (sint (MaximumActiveConnections s)))"
  have "(0::rat) \<le> of_int (sint (CurrentActiveConnections s))"
    using cur by (simp only: of_int_0_le_iff)
  then have "0 \<le> a" unfolding a_def by (rule round53_nonneg)
  moreover have "c \<le> 0"
  proof -
    have "sint (MaximumActiveConnections s) \<le> 0" using cap by (rule less_imp_le)
    then have "(of_int (sint (MaximumActiveConnections s)) :: rat) \<le> 0"
      by (simp only: of_int_le_0_iff)
    then have "round53 (of_int (sint (MaximumActiveConnections s))) \<le> round53 0"
      by (rule round53_mono)
    then show ?thesis by (simp add: c_def round53_def)
  qed
  ultimately have "a / c \<le> 0" by (simp add: divide_nonneg_nonpos)
  then have "round53 (a / c) \<le> round53 0" by (rule round53_mono)
  then have r: "round53 (a / c) \<le> 0" by (simp add: round53_def)
  have "MaximumActiveConnections s \<noteq> 0" using cap by auto
  then have "load s = Fin (round53 (a / c))"
    unfolding a_def c_def by (rule load_eq)
  then show ?thesis using r by (simp add: f_ge_def f_one_def)
qed

subsection \<open>The selector on the examples\<close>

lemma selectServer_two_backends: "selectServer two_backends = Some 0"
  by (simp add: selectServer_def selectServer_loop.simps selectServer_body_def two_backends_def
      backend_def load_idle f_ge_def f_one_def)

lemma selectServer_zero_capacity: "selectServer zero_capacity = Some 0"
  by (simp add: selectServer_def selectServer_loop.simps selectServer_body_def zero_capacity_def
      backend_def load_zero_capacity f_ge_def f_one_def)

lemma selectServer_none_available: "selectServer none_available = None"
  by (simp add: selectServer_def selectServer_loop.simps selectServer_body_def none_available_def
      backend_def load_full f_ge_def f_one_def)

lemma selectServer_zero_capacity_first: "selectServer zero_capacity_first = Some 0"
  by (simp add: selectServer_def selectServer_loop.simps selectServer_body_def
      zero_capacity_first_def backend_def load_zero_capacity load_idle f_ge_def f_one_def)

lemma selectServer_negative_capacity: "selectServer negative_capacity = Some 0"
proof -
  have "\<not> f_ge (load (backend 1 (- 3) 1 True ''http://localhost:9001'')) f_one"
    by (rule load_negative_capacity) (simp_all add: backend_def)
  then show ?thesis
    by (simp add: selectServer_def selectServer_loop.simps selectServer_body_def
        negative_capacity_def) (simp add: backend_def)
qed

lemma qualifying_iff_passes_guard:
  assumes "\<And>k. k < length (Servers lb) \<Longrightarrow> Status (Servers lb ! k) \<Longrightarrow> load (Servers lb ! k) \<noteq> NaN"
  shows "qualifying lb k \<longleftrightarrow> passes_guard lb k"
  using assms [of k] by (auto simp: qualifying_def passes_guard_def f_ge_def f_one_def)

section \<open>The selector never returns an excluded entry\<close>

text \<open>
  Claim C1, as stated, fails: it says that an entry which \<open>selectServer\<close> returns is
  healthy and strictly below its capacity. In the registry \<open>zero_capacity\<close> the only
  entry has capacity 0 and no connection; its load is \<open>0 / 0\<close>, not a number, for which
  \<open>currentLoad >= 1.0\<close> is false, so the entry is returned. Its load is not below
  \<open>1.0\<close>, and its connections are not below its capacity.
\<close>

theorem zero_capacity_not_below_capacity:
  "selectServer zero_capacity = Some 0 \<and>
   Status (Servers zero_capacity ! 0) \<and>
   \<not> f_lt (load (Servers zero_capacity ! 0)) f_one \<and>
   \<not> sint (CurrentActiveConnections (Servers zero_capacity ! 0))
       < sint (MaximumActiveConnections (Servers zero_capacity ! 0))"
proof -
  have "load (Servers zero_capacity ! 0) = NaN"
    by (simp add: zero_capacity_def backend_def load_zero_capacity)
  then have "\<not> f_lt (load (Servers zero_capacity ! 0)) f_one" by simp
  then show ?thesis
    using selectServer_zero_capacity by (simp add: zero_capacity_def backend_def)
qed

text \<open>
  Claim C1, amended: for every registry, an entry that \<open>selectServer\<close> returns is in
  the registry, its flag is set, and the test \<open>load >= 1.0\<close> is false for it; when its
  capacity is positive, its load is below \<open>1.0\<close> and its connections are strictly below
  its capacity.
\<close>

theorem selected_passes_guard:
  assumes "selectServer lb = Some k"
  shows "k < length (Servers lb) \<and> Status (Servers lb ! k) \<and>
         \<not> f_ge (load (Servers lb ! k)) f_one \<and>
         (0 < sint (MaximumActiveConnections (Servers lb ! k)) \<longrightarrow>
            f_lt (load (Servers lb ! k)) f_one \<and>
            sint (CurrentActiveConnections (Servers lb ! k))
              < sint (MaximumActiveConnections (Servers lb ! k)))"
proof -
  from assms have "selectServer_loop lb 0 None = Some k"
    by (simp add: selectServer_def)
  from selectServer_loop_sound [OF this]
  have g: "k < length (Servers lb)" "Status (Servers lb ! k)"
    "\<not> f_ge (load (Servers lb ! k)) f_one" by simp_all
  from load_below_capacity [OF _ g(3)] g show ?thesis by blast
qed

text \<open>
  Claim C1, amended, on the two backends of the README: the first one is returned, its
  capacity 5 is positive, and it is healthy with load 0 and no connection out of 5.
\<close>

theorem selected_passes_guard_witness:
  "selectServer two_backends = Some 0 \<and>
   0 < length (Servers two_backends) \<and> Status (Servers two_backends ! 0) \<and>
   \<not> f_ge (load (Servers two_backends ! 0)) f_one \<and>
   0 < sint (MaximumActiveConnections (Servers two_backends ! 0)) \<and>
   f_lt (load (Servers two_backends ! 0)) f_one \<and>
   sint (CurrentActiveConnections (Servers two_backends ! 0))
     < sint (MaximumActiveConnections (Servers two_backends ! 0))"
proof -
  have h: "selectServer two_backends = Some 0"
    by (rule selectServer_two_backends)
  have c: "0 < sint (MaximumActiveConnections (Servers two_backends ! 0))"
    by (simp add: two_backends_def backend_def)
  from selected_passes_guard [OF h] h c show ?thesis by blast
qed

section \<open>The selector returns the least loaded entry\<close>

text \<open>
  Claim C2, as stated, fails: it says that when some entry is healthy with a load below
  \<open>1.0\<close>, \<open>selectServer\<close> returns such an entry, one of least load. In
  \<open>zero_capacity_first\<close> the second entry is healthy and idle (load 0), and the first has
  capacity 0 and no connection (load not a number). The first passes the guard and is
  kept, since \<open>currentLoad < optimalLoad\<close> is false against a load that is not a number;
  it is returned, and it is not an entry with a load below \<open>1.0\<close>.
\<close>

theorem zero_capacity_first_not_least:
  "qualifying zero_capacity_first 1 \<and>
   selectServer zero_capacity_first = Some 0 \<and>
   \<not> qualifying zero_capacity_first 0 \<and>
   load (Servers zero_capacity_first ! 0) = NaN \<and>
   load (Servers zero_capacity_first ! 1) = Fin 0"
proof -
  have l0: "load (Servers zero_capacity_first ! 0) = NaN"
    by (simp add: zero_capacity_first_def backend_def load_zero_capacity)
  have l1: "load (Servers zero_capacity_first ! 1) = Fin 0"
    by (simp add: zero_capacity_first_def backend_def load_idle)
  have q1: "qualifying zero_capacity_first 1"
    unfolding qualifying_def l1 by (simp add: zero_capacity_first_def backend_def f_one_def)
  have q0: "\<not> qualifying zero_capacity_first 0"
    unfolding qualifying_def l0 by simp
  from l0 l1 selectServer_zero_capacity_first q1 q0 show ?thesis by simp
qed

text \<open>
  Claim C2, amended: for every registry in which no healthy entry has capacity 0 with
  no connection (so in every registry whose capacities are positive), if some entry is
  healthy with a load below \<open>1.0\<close>, then \<open>selectServer\<close> returns such an entry; no such
  entry has a smaller load, and each such entry before it has a strictly larger load, so
  that among the entries of least load the one of lowest index is returned. The load is
  the float64 quotient that the code computes.
\<close>

theorem least_load_selected:
  assumes H: "\<forall>s \<in> set (Servers lb). Status s \<longrightarrow>
                \<not> (MaximumActiveConnections s = 0 \<and> CurrentActiveConnections s = 0)"
    and q: "qualifying lb q"
  shows "\<exists>j. selectServer lb = Some j \<and> qualifying lb j \<and>
           (\<forall>k. qualifying lb k \<longrightarrow> \<not> f_lt (load (Servers lb ! k)) (load (Servers lb ! j))) \<and>
           (\<forall>k<j. qualifying lb k \<longrightarrow> f_lt (load (Servers lb ! j)) (load (Servers lb ! k)))"
proof -
  have N: "load (Servers lb ! k) \<noteq> NaN" if "k < length (Servers lb)" "Status (Servers lb ! k)" for k
    using H that by (auto simp: load_NaN_iff dest: nth_mem)
  have Q: "qualifying lb k \<longleftrightarrow> passes_guard lb k" for k
    using N by (rule qualifying_iff_passes_guard)
  have "least_loaded_upto lb 0 None"
    by (simp add: least_loaded_upto_def)
  with N have L: "least_loaded_upto lb (length (Servers lb)) (selectServer lb)"
    unfolding selectServer_def by (intro selectServer_loop_least) simp_all
  have ql: "q < length (Servers lb)" using q by (simp add: qualifying_def)
  show ?thesis
  proof (cases "selectServer lb")
    case None
    with L ql q Q show ?thesis by (simp add: least_loaded_upto_def)
  next
    case (Some j)
    with L have "j < length (Servers lb)" "passes_guard lb j"
      and "\<And>k. k < length (Servers lb) \<Longrightarrow> passes_guard lb k \<Longrightarrow>
             \<not> f_lt (load (Servers lb ! k)) (load (Servers lb ! j))"
      and "\<And>k. k < j \<Longrightarrow> passes_guard lb k \<Longrightarrow>
             f_lt (load (Servers lb ! j)) (load (Servers lb ! k))"
      by (simp_all add: least_loaded_upto_def)
    then show ?thesis
      using Some Q by (auto simp: passes_guard_def)
  qed
qed

text \<open>
  Claim C2, amended, on the two backends of the README (capacities 5 and 3, both idle,
  a tie at load 0): no capacity is 0, the second entry is healthy with a load below
  \<open>1.0\<close>, and the entry returned is the first, which is healthy with a load below
  \<open>1.0\<close> that the load of the second is not below.
\<close>

theorem least_load_selected_witness:
  "MaximumActiveConnections (Servers two_backends ! 0) \<noteq> 0 \<and>
   MaximumActiveConnections (Servers two_backends ! 1) \<noteq> 0 \<and>
   qualifying two_backends 1 \<and>
   selectServer two_backends = Some 0 \<and>
   qualifying two_backends 0 \<and>
   \<not> f_lt (load (Servers two_backends ! 1)) (load (Servers two_backends ! 0))"
proof -
  have h: "\<forall>s \<in> set (Servers two_backends). Status s \<longrightarrow>
      \<not> (MaximumActiveConnections s = 0 \<and> CurrentActiveConnections s = 0)"
    by (simp add: two_backends_def backend_def)
  have q: "qualifying two_backends 1"
    by (simp add: qualifying_def two_backends_def backend_def load_idle f_one_def)
  from least_load_selected [OF h q] obtain j where
    j: "selectServer two_backends = Some j" "qualifying two_backends j"
      "\<forall>k. qualifying two_backends k \<longrightarrow>
         \<not> f_lt (load (Servers two_backends ! k)) (load (Servers two_backends ! j))"
    by blast
  from j(1) have "j = 0" by (simp add: selectServer_two_backends)
  with j q have r: "selectServer two_backends = Some 0" "qualifying two_backends 0"
    "\<not> f_lt (load (Servers two_backends ! 1)) (load (Servers two_backends ! 0))"
    by blast+
  have c: "MaximumActiveConnections (Servers two_backends ! 0) \<noteq> 0"
    "MaximumActiveConnections (Servers two_backends ! 1) \<noteq> 0"
    by (simp_all add: two_backends_def backend_def)
  from c q r show ?thesis by blast
qed

section \<open>An entry with capacity 0\<close>

text \<open>
  Claim C9: the guard does not exclude an entry for its capacity. In \<open>zero_capacity\<close>
  the only entry is healthy with capacity 0 and no connection; both conversions give
  0, the quotient \<open>0 / 0\<close> is not a number, \<open>NaN >= 1.0\<close> is false, and \<open>selectServer\<close>
  returns the entry, not nil.
\<close>

theorem zero_capacity_selected:
  "MaximumActiveConnections (Servers zero_capacity ! 0) = 0 \<and>
   CurrentActiveConnections (Servers zero_capacity ! 0) = 0 \<and>
   Status (Servers zero_capacity ! 0) \<and>
   float64_of_int64 0 = Fin 0 \<and>
   f_div (Fin 0) (Fin 0) = NaN \<and>
   load (Servers zero_capacity ! 0) = NaN \<and>
   \<not> f_ge NaN f_one \<and>
   selectServer zero_capacity = Some 0"
proof -
  have "float64_of_int64 0 = Fin 0"
    by (simp add: float64_of_int64_Fin round53_def)
  moreover have "load (Servers zero_capacity ! 0) = NaN"
    by (simp add: zero_capacity_def backend_def load_zero_capacity)
  ultimately show ?thesis
    using selectServer_zero_capacity by (simp add: zero_capacity_def backend_def f_ge_def)
qed

text \<open>Claim C9, used: the answer for \<open>zero_capacity\<close> is not nil.\<close>

theorem zero_capacity_selected_witness:
  "selectServer zero_capacity \<noteq> None"
  using zero_capacity_selected by simp

section \<open>Accounting around the forward\<close>

text \<open>
  Claim C3: when the selector returns the entry \<open>i\<close>, then, whatever the forward does
  (it returns, or it panics, as it does too through a nil proxy): before the forward the
  handler has made one addition to the request counter, one of \<open>+1\<close> to the connections
  of entry \<open>i\<close> and one of \<open>+1\<close> to the global counter, and in the registry the
  forward runs in both stand one higher than before; the handler makes five additions in
  all, the last two those of \<open>-1\<close> in the deferred function; it ends by returning or
  with the panic going on; and it leaves the connections of entry \<open>i\<close>, every entry
  and the global counter as they were. The last part says the same with other handlers
  at work: whatever additions \<open>others\<close> are made between the first three additions of
  the handler and its last two, from any registry \<open>lb'\<close>, what remains is the effect of
  \<open>others\<close> and one counted request.
\<close>

theorem accounting_symmetry:
  assumes "selectServer lb = Some i"
  shows "fst (ServeHTTP_begin lb) = Some i \<and>
         snd (snd (ServeHTTP_begin lb)) =
           [(TotalRequestsCounter, 1),
            (CurrentActiveConnectionsCounter i, 1), (TotalActiveConnectionsCounter, 1)] \<and>
         CurrentActiveConnections (Servers (fst (snd (ServeHTTP_begin lb))) ! i) =
           CurrentActiveConnections (Servers lb ! i) + 1 \<and>
         TotalActiveConnections (fst (snd (ServeHTTP_begin lb))) =
           TotalActiveConnections lb + 1 \<and>
         fst (ServeHTTP proxy_ServeHTTP lb) =
           (case forward proxy_ServeHTTP (Servers (fst (snd (ServeHTTP_begin lb))) ! i) of
              Returned \<Rightarrow> Forwarded i | Panicked \<Rightarrow> PanicPropagated i) \<and>
         snd (snd (ServeHTTP proxy_ServeHTTP lb)) =
           [(TotalRequestsCounter, 1),
            (CurrentActiveConnectionsCounter i, 1), (TotalActiveConnectionsCounter, 1),
            (CurrentActiveConnectionsCounter i, - 1), (TotalActiveConnectionsCounter, - 1)] \<and>
         CurrentActiveConnections (Servers (fst (snd (ServeHTTP proxy_ServeHTTP lb))) ! i) =
           CurrentActiveConnections (Servers lb ! i) \<and>
         Servers (fst (snd (ServeHTTP proxy_ServeHTTP lb))) = Servers lb \<and>
         TotalActiveConnections (fst (snd (ServeHTTP proxy_ServeHTTP lb))) =
           TotalActiveConnections lb \<and>
         atomic_adds (drop 3 (snd (snd (ServeHTTP proxy_ServeHTTP lb))))
           (atomic_adds others
             (atomic_adds (take 3 (snd (snd (ServeHTTP proxy_ServeHTTP lb)))) lb')) =
           atomic_adds others (add_counter TotalRequestsCounter 1 lb')"
proof -
  have i: "i < length (Servers lb)" using assms by (rule selected_in_range)
  have B: "fst (ServeHTTP_begin lb) = Some i"
    "snd (snd (ServeHTTP_begin lb)) =
       [(TotalRequestsCounter, 1),
        (CurrentActiveConnectionsCounter i, 1), (TotalActiveConnectionsCounter, 1)]"
    "CurrentActiveConnections (Servers (fst (snd (ServeHTTP_begin lb))) ! i) =
       CurrentActiveConnections (Servers lb ! i) + 1"
    "TotalActiveConnections (fst (snd (ServeHTTP_begin lb))) = TotalActiveConnections lb + 1"
    using i by (simp_all add: ServeHTTP_begin_selected [OF assms])
  have f: "forward proxy_ServeHTTP (Servers (fst (snd (ServeHTTP_begin lb))) ! i) =
      forward proxy_ServeHTTP (Servers lb ! i)"
    using i by (simp add: ServeHTTP_begin_selected [OF assms] forward_def)
  have A: "fst (ServeHTTP proxy_ServeHTTP lb) =
       (case forward proxy_ServeHTTP (Servers (fst (snd (ServeHTTP_begin lb))) ! i) of
          Returned \<Rightarrow> Forwarded i | Panicked \<Rightarrow> PanicPropagated i)"
    "snd (snd (ServeHTTP proxy_ServeHTTP lb)) =
       [(TotalRequestsCounter, 1),
        (CurrentActiveConnectionsCounter i, 1), (TotalActiveConnectionsCounter, 1),
        (CurrentActiveConnectionsCounter i, - 1), (TotalActiveConnectionsCounter, - 1)]"
    "CurrentActiveConnections (Servers (fst (snd (ServeHTTP proxy_ServeHTTP lb))) ! i) =
       CurrentActiveConnections (Servers lb ! i)"
    "Servers (fst (snd (ServeHTTP proxy_ServeHTTP lb))) = Servers lb"
    "TotalActiveConnections (fst (snd (ServeHTTP proxy_ServeHTTP lb))) =
       TotalActiveConnections lb"
    unfolding f by (simp_all add: ServeHTTP_forwarded [OF assms])
  have N: "atomic_adds (drop 3 (snd (snd (ServeHTTP proxy_ServeHTTP lb))))
           (atomic_adds others
             (atomic_adds (take 3 (snd (snd (ServeHTTP proxy_ServeHTTP lb)))) lb')) =
           atomic_adds others (add_counter TotalRequestsCounter 1 lb')"
    unfolding A(2) using handler_trace_net [of i others lb'] by simp
  from B A N show ?thesis by blast
qed

text \<open>
  Claim C3 on the two backends of the README, with a forward that panics: entry 0 is
  selected; during the forward its connections and the global counter stand at 1; the
  panic goes on; afterwards both are back at 0.
\<close>

theorem accounting_symmetry_witness:
  "selectServer two_backends = Some 0 \<and>
   forward (\<lambda>p. Panicked) (Servers two_backends ! 0) = Panicked \<and>
   CurrentActiveConnections (Servers two_backends ! 0) = 0 \<and>
   CurrentActiveConnections (Servers (fst (snd (ServeHTTP_begin two_backends))) ! 0) = 1 \<and>
   TotalActiveConnections (fst (snd (ServeHTTP_begin two_backends))) = 1 \<and>
   snd (snd (ServeHTTP (\<lambda>p. Panicked) two_backends)) =
     [(TotalRequestsCounter, 1),
      (CurrentActiveConnectionsCounter 0, 1), (TotalActiveConnectionsCounter, 1),
      (CurrentActiveConnectionsCounter 0, - 1), (TotalActiveConnectionsCounter, - 1)] \<and>
   CurrentActiveConnections (Servers (fst (snd (ServeHTTP (\<lambda>p. Panicked) two_backends))) ! 0) = 0 \<and>
   Servers (fst (snd (ServeHTTP (\<lambda>p. Panicked) two_backends))) = Servers two_backends \<and>
   TotalActiveConnections (fst (snd (ServeHTTP (\<lambda>p. Panicked) two_backends))) = 0"
proof -
  have h: "selectServer two_backends = Some 0"
    by (rule selectServer_two_backends)
  have f: "forward (\<lambda>p. Panicked) (Servers two_backends ! 0) = Panicked"
    by (simp add: forward_def two_backends_def backend_def)
  have t: "TotalActiveConnections two_backends = 0"
    "CurrentActiveConnections (Servers two_backends ! 0) = 0"
    by (simp_all add: two_backends_def backend_def)
  from accounting_symmetry [OF h, where proxy_ServeHTTP = "\<lambda>p. Panicked" and others = "[]"
      and lb' = two_backends] h f t
  show ?thesis by simp
qed

section \<open>No backend available\<close>

text \<open>
  Claim C4, as stated, fails: it says that \<open>selectServer\<close> returns nil, and the request
  is answered 503 with no addition to an active counter, when every entry is unhealthy
  or at or over its capacity. In \<open>zero_capacity\<close> the only entry is at its capacity (0
  connections of 0), and in \<open>negative_capacity\<close> it is over it (1 connection, capacity
  -3); in both the entry is returned, and the request to \<open>zero_capacity\<close> is forwarded,
  with the four additions to the active counters.
\<close>

theorem at_capacity_forwarded:
  "list_all at_capacity (Servers zero_capacity) \<and>
   selectServer zero_capacity = Some 0 \<and>
   fst (ServeHTTP (\<lambda>p. Returned) zero_capacity) = Forwarded 0 \<and>
   snd (snd (ServeHTTP (\<lambda>p. Returned) zero_capacity)) =
     [(TotalRequestsCounter, 1),
      (CurrentActiveConnectionsCounter 0, 1), (TotalActiveConnectionsCounter, 1),
      (CurrentActiveConnectionsCounter 0, - 1), (TotalActiveConnectionsCounter, - 1)] \<and>
   list_all at_capacity (Servers negative_capacity) \<and>
   selectServer negative_capacity = Some 0"
proof -
  have a: "list_all at_capacity (Servers zero_capacity)"
    "list_all at_capacity (Servers negative_capacity)"
    by (simp_all add: at_capacity_def zero_capacity_def negative_capacity_def backend_def)
  have f: "forward (\<lambda>p. Returned) (Servers zero_capacity ! 0) = Returned"
    by (simp add: forward_def zero_capacity_def backend_def)
  have "fst (ServeHTTP (\<lambda>p. Returned) zero_capacity) = Forwarded 0"
    "snd (snd (ServeHTTP (\<lambda>p. Returned) zero_capacity)) =
       [(TotalRequestsCounter, 1),
        (CurrentActiveConnectionsCounter 0, 1), (TotalActiveConnectionsCounter, 1),
        (CurrentActiveConnectionsCounter 0, - 1), (TotalActiveConnectionsCounter, - 1)]"
    by (simp_all add: ServeHTTP_forwarded [OF selectServer_zero_capacity] f)
  with a selectServer_zero_capacity selectServer_negative_capacity show ?thesis by simp
qed

text \<open>
  Claim C4, amended: when every entry is unhealthy, or has a positive capacity and is
  at or over it, \<open>selectServer\<close> returns nil and the handler answers 503; its only
  addition is the one to the request counter, and the registry is otherwise as before.
\<close>

theorem exhaustion:
  assumes "\<forall>s \<in> set (Servers lb).
             \<not> Status s \<or> (0 < sint (MaximumActiveConnections s) \<and> at_capacity s)"
  shows "selectServer lb = None \<and>
         ServeHTTP proxy_ServeHTTP lb =
           (ServiceUnavailable, lb\<lparr>TotalRequests := TotalRequests lb + 1\<rparr>,
            [(TotalRequestsCounter, 1)])"
proof -
  have "\<not> Status (Servers lb ! k) \<or> f_ge (load (Servers lb ! k)) f_one"
    if "k < length (Servers lb)" for k
  proof -
    from that have "Servers lb ! k \<in> set (Servers lb)" by simp
    with assms have "\<not> Status (Servers lb ! k) \<or>
        (0 < sint (MaximumActiveConnections (Servers lb ! k)) \<and> at_capacity (Servers lb ! k))"
      by blast
    then show ?thesis
      by (auto simp: at_capacity_def intro: at_capacity_excluded)
  qed
  then have "selectServer lb = None"
    by (simp add: selectServer_None_iff)
  then show ?thesis by (simp add: ServeHTTP_unavailable)
qed

text \<open>
  Claim C4, amended, on \<open>none_available\<close>: the first entry is healthy with 5
  connections of 5, the second is down; the answer is 503 and only the request counter
  moves, from 7 to 8.
\<close>

theorem exhaustion_witness:
  "Status (Servers none_available ! 0) \<and>
   0 < sint (MaximumActiveConnections (Servers none_available ! 0)) \<and>
   at_capacity (Servers none_available ! 0) \<and>
   \<not> Status (Servers none_available ! 1) \<and>
   selectServer none_available = None \<and>
   ServeHTTP (\<lambda>p. Returned) none_available =
     (ServiceUnavailable, none_available\<lparr>TotalRequests := 8\<rparr>, [(TotalRequestsCounter, 1)])"
proof -
  have g: "Status (Servers none_available ! 0)"
    "0 < sint (MaximumActiveConnections (Servers none_available ! 0))"
    "at_capacity (Servers none_available ! 0)"
    "\<not> Status (Servers none_available ! 1)"
    by (simp_all add: none_available_def backend_def at_capacity_def)
  have h: "\<forall>s \<in> set (Servers none_available).
      \<not> Status s \<or> (0 < sint (MaximumActiveConnections s) \<and> at_capacity s)"
    by (simp add: none_available_def backend_def at_capacity_def)
  have t: "TotalRequests none_available + 1 = 8"
    by (simp add: none_available_def)
  from exhaustion [OF h, where proxy_ServeHTTP = "\<lambda>p. Returned"] g t
  show ?thesis by simp
qed

section \<open>The flag after a probe\<close>

text \<open>
  Claim C5, as stated, fails: it says that the flag is set if and only if the probe
  completed without error and reported a success status. A probe of the first of the
  two backends of the README that completes with 204, or with 201, both success
  statuses, clears the flag, which was set.
\<close>

theorem other_success_status_clears_flag:
  "success_status 204 \<and>
   Status (Servers two_backends ! 0) \<and>
   \<not> Status (Servers (healthCheck_probe (\<lambda>u. ProbeResponse 204) 0 two_backends) ! 0) \<and>
   success_status 201 \<and>
   \<not> Status (Servers (healthCheck_probe (\<lambda>u. ProbeResponse 201) 0 two_backends) ! 0)"
proof -
  have l: "0 < length (Servers two_backends)" by (simp add: two_backends_def)
  have "\<not> Status (Servers (healthCheck_probe (\<lambda>u. ProbeResponse 204) 0 two_backends) ! 0)"
    "\<not> Status (Servers (healthCheck_probe (\<lambda>u. ProbeResponse 201) 0 two_backends) ! 0)"
    by (simp_all add: healthCheck_probe_Status [OF l])
  then show ?thesis
    by (simp add: success_status_def) (simp add: two_backends_def backend_def)
qed

text \<open>
  Claim C5, amended: after the probe of entry \<open>i\<close>, and so after a whole cycle, its
  flag is set if and only if \<open>client.Get\<close> returned no error and a response with status
  200; an error (a timeout is one), and every other status, clear it.
\<close>

theorem probe_sets_flag:
  assumes "i < length (Servers lb)"
  shows "(Status (Servers (healthCheck_probe client_Get i lb) ! i) \<longleftrightarrow>
            client_Get (URL (Servers lb ! i) @ ''/health'') = ProbeResponse 200) \<and>
         (Status (Servers (healthCheck_cycle client_Get lb) ! i) \<longleftrightarrow>
            client_Get (URL (Servers lb ! i) @ ''/health'') = ProbeResponse 200)"
  using assms
  by (simp add: healthCheck_probe_Status healthCheck_cycle_eq newStatus_iff)

text \<open>
  Claim C5, amended, on the examples: a full entry whose probe answers 200 is up after
  it; an entry whose probe fails with an error is down after it; one whose probe
  answers 503, or 204, is down after it.
\<close>

theorem probe_sets_flag_witness:
  "Status (Servers (healthCheck_probe
      (\<lambda>u. if u = ''http://localhost:9001/health'' then ProbeResponse 200 else ProbeError None)
      0 none_available) ! 0) \<and>
   \<not> Status (Servers (healthCheck_probe
      (\<lambda>u. if u = ''http://localhost:9001/health'' then ProbeResponse 200 else ProbeError None)
      1 two_backends) ! 1) \<and>
   \<not> Status (Servers (healthCheck_probe (\<lambda>u. ProbeResponse 503) 0 two_backends) ! 0) \<and>
   \<not> Status (Servers (healthCheck_probe (\<lambda>u. ProbeResponse 204) 0 two_backends) ! 0)"
proof -
  let ?g = "\<lambda>u. if u = ''http://localhost:9001/health'' then ProbeResponse 200 else ProbeError None"
  have a: "0 < length (Servers none_available)" by (simp add: none_available_def)
  have b: "1 < length (Servers two_backends)" by (simp add: two_backends_def)
  have c: "0 < length (Servers two_backends)" by (simp add: two_backends_def)
  have ua: "?g (URL (Servers none_available ! 0) @ ''/health'') = ProbeResponse 200"
    by (simp add: none_available_def backend_def)
  have ub: "?g (URL (Servers two_backends ! 1) @ ''/health'') \<noteq> ProbeResponse 200"
    by (simp add: two_backends_def backend_def)
  from probe_sets_flag [OF a, of ?g] probe_sets_flag [OF b, of ?g]
    probe_sets_flag [OF c, of "\<lambda>u. ProbeResponse 503"]
    probe_sets_flag [OF c, of "\<lambda>u. ProbeResponse 204"] ua ub
  show ?thesis by simp
qed

section \<open>What startup checks\<close>

text \<open>
  Claim C6, as stated, fails: it says that startup fails when the list of backends is
  empty or a capacity is not positive. \<open>main\<close> starts with the empty list of
  \<open>empty_config\<close>, and with a backend of capacity 0.
\<close>

theorem empty_list_accepted:
  "json_Servers empty_config = [] \<and>
   main_startup (\<lambda>u. Some u) (Document empty_config) =
     Started \<lparr>Servers = [], TotalActiveConnections = 0, TotalRequests = 0\<rparr> \<and>
   main_startup (\<lambda>u. Some u)
     (Document \<lparr>json_Servers = [descriptor (1, 0, ''http://localhost:9001'')],
                json_TotalActiveConnections = Absent, json_TotalRequests = Absent\<rparr>) =
     Started \<lparr>Servers =
                [\<lparr>Id = 1, MaximumActiveConnections = 0, CurrentActiveConnections = 0,
                  Status = False, URL = ''http://localhost:9001'',
                  ReverseProxy = Some (SingleHostReverseProxy (Some ''http://localhost:9001''))\<rparr>],
              TotalActiveConnections = 0, TotalRequests = 0\<rparr>"
proof -
  have "list_all (\<lambda>d. in_int64 (fst d) \<and> in_int64 (fst (snd d))) [(1, 0, ''http://localhost:9001'')]"
    by (simp add: in_int64_def)
  from main_startup_descriptors [OF this, of "\<lambda>u. Some u"] show ?thesis
    by (simp add: main_startup_empty_config described_def) (simp add: empty_config_def)
qed

text \<open>
  Claim C6, amended: \<open>main\<close> stops before serving exactly when the file cannot be read
  or \<open>json.Unmarshal\<close> returns an error. It checks nothing else: a list of descriptors
  with identifiers and capacities that fit int64 (capacities of any sign, the empty list
  too) and any addresses starts, each entry with its capacity as given and a proxy for
  whatever \<open>url.Parse\<close> made of its address.
\<close>

theorem startup_checks:
  assumes "list_all (\<lambda>d. in_int64 (fst d) \<and> in_int64 (fst (snd d))) ds"
  shows "main_startup url_Parse Unreadable = ExitReadError \<and>
         main_startup url_Parse Malformed = ExitUnmarshalError \<and>
         main_startup url_Parse (Document c) =
           (if snd (unmarshal_LoadBalancer c) then ExitUnmarshalError
            else Started (setupReversProxies url_Parse (fst (unmarshal_LoadBalancer c)))) \<and>
         main_startup url_Parse
           (Document \<lparr>json_Servers = map descriptor ds,
                      json_TotalActiveConnections = Absent, json_TotalRequests = Absent\<rparr>) =
           Started \<lparr>Servers = map (described url_Parse) ds,
                    TotalActiveConnections = 0, TotalRequests = 0\<rparr>"
proof -
  have "main_startup url_Parse (Document c) =
      (if snd (unmarshal_LoadBalancer c) then ExitUnmarshalError
       else Started (setupReversProxies url_Parse (fst (unmarshal_LoadBalancer c))))"
    by (simp add: main_startup_def case_prod_beta)
  moreover have "main_startup url_Parse Unreadable = ExitReadError"
    "main_startup url_Parse Malformed = ExitUnmarshalError"
    by (simp_all add: main_startup_def)
  ultimately show ?thesis
    using main_startup_descriptors [OF assms] by simp
qed

text \<open>
  Claim C6, amended, on two descriptors with capacities 0 and -3 and addresses without
  a scheme, which \<open>url.Parse\<close> rejects (a colon in the first path segment): \<open>main\<close>
  starts with both entries.
\<close>

theorem startup_checks_witness:
  "in_int64 1 \<and> in_int64 0 \<and> in_int64 2 \<and> in_int64 (- 3) \<and>
   main_startup (\<lambda>u. None)
     (Document \<lparr>json_Servers = [descriptor (1, 0, ''127.0.0.1:9001''),
                                 descriptor (2, - 3, ''127.0.0.1:9002'')],
                json_TotalActiveConnections = Absent, json_TotalRequests = Absent\<rparr>) =
     Started \<lparr>Servers =
                [\<lparr>Id = 1, MaximumActiveConnections = 0, CurrentActiveConnections = 0,
                  Status = False, URL = ''127.0.0.1:9001'',
                  ReverseProxy = Some (SingleHostReverseProxy None)\<rparr>,
                 \<lparr>Id = 2, MaximumActiveConnections = - 3, CurrentActiveConnections = 0,
                  Status = False, URL = ''127.0.0.1:9002'',
                  ReverseProxy = Some (SingleHostReverseProxy None)\<rparr>],
              TotalActiveConnections = 0, TotalRequests = 0\<rparr>"
proof -
  have r: "in_int64 1" "in_int64 0" "in_int64 2" "in_int64 (- 3)"
    by (simp_all add: in_int64_def)
  then have h: "list_all (\<lambda>d. in_int64 (fst d) \<and> in_int64 (fst (snd d)))
      [(1, 0, ''127.0.0.1:9001''), (2, - 3, ''127.0.0.1:9002'')]"
    by simp
  from startup_checks [OF h, where url_Parse = "\<lambda>u. None" and c = empty_config]
  have "main_startup (\<lambda>u. None)
     (Document \<lparr>json_Servers = map descriptor [(1, 0, ''127.0.0.1:9001''), (2, - 3, ''127.0.0.1:9002'')],
                json_TotalActiveConnections = Absent, json_TotalRequests = Absent\<rparr>) =
     Started \<lparr>Servers = map (described (\<lambda>u. None)) [(1, 0, ''127.0.0.1:9001''), (2, - 3, ''127.0.0.1:9002'')],
              TotalActiveConnections = 0, TotalRequests = 0\<rparr>"
    by blast
  with r show ?thesis
    by (simp add: described_def)
qed

section \<open>The flag at startup\<close>

text \<open>
  Claim C7 says that each flag starts as the boolean that the configuration declares.
  On the \<open>servers.json\<close> of the README, which declares \<open>"Status": true\<close> for both
  backends, \<open>json.Unmarshal\<close> cannot store the boolean into the \<open>atomic.Bool\<close> and
  returns an error, so that \<open>main\<close> prints it and returns; the flags that the decoder
  leaves are false.
\<close>

theorem readme_config_rejected:
  "main_startup url_Parse (Document readme_config) = ExitUnmarshalError \<and>
   list_all (\<lambda>j. json_Status j = JBool True) (json_Servers readme_config) \<and>
   list_all (\<lambda>s. Status s = False) (Servers (fst (unmarshal_LoadBalancer readme_config)))"
proof -
  have "list_all (\<lambda>j. json_Status j = JBool True) (json_Servers readme_config)"
    by (simp add: readme_config_def)
  moreover have "list_all (\<lambda>s. Status s = False) (Servers (fst (unmarshal_LoadBalancer readme_config)))"
    by (simp add: unmarshal_LoadBalancer_def case_prod_beta list_all_iff unmarshal_Server_Status)
  ultimately show ?thesis
    by (simp add: main_startup_readme_config)
qed

text \<open>Claim C7, used: on the README's file \<open>main\<close> does not start with both flags set.\<close>

theorem readme_config_rejected_witness:
  "main_startup (\<lambda>u. Some u) (Document readme_config) \<noteq>
     Started (two_backends\<lparr>Servers := map (\<lambda>s. s\<lparr>Status := True\<rparr>) (Servers two_backends)\<rparr>)"
  using readme_config_rejected [of "\<lambda>u. Some u"] by simp

section \<open>The request counter\<close>

text \<open>
  Claim C8, as stated, fails: it says that \<open>TotalRequests\<close> never decreases. The field
  is exported, so the configuration can set it: from \<open>requests_at_max_config\<close> \<open>main\<close>
  starts with the counter at the largest int64, and the first request, answered 503 and
  counted, takes it to the smallest.
\<close>

theorem request_counter_wraps:
  "main_startup (\<lambda>u. Some u) (Document requests_at_max_config) = Started requests_at_max \<and>
   sint (TotalRequests requests_at_max) = 9223372036854775807 \<and>
   fst (ServeHTTP (\<lambda>p. Returned) requests_at_max) = ServiceUnavailable \<and>
   sint (TotalRequests (fst (snd (ServeHTTP (\<lambda>p. Returned) requests_at_max)))) =
     - 9223372036854775808"
proof -
  have m: "main_startup (\<lambda>u. Some u) (Document requests_at_max_config) = Started requests_at_max"
    by (simp add: main_startup_def unmarshal_LoadBalancer_def requests_at_max_config_def
        requests_at_max_def setupReversProxies_def case_prod_beta)
  have n: "selectServer requests_at_max = None"
    by (simp add: selectServer_def selectServer_loop.simps requests_at_max_def)
  have "sint (TotalRequests requests_at_max) = 9223372036854775807"
    "sint (TotalRequests (fst (snd (ServeHTTP (\<lambda>p. Returned) requests_at_max)))) =
       - 9223372036854775808"
    by (simp_all add: ServeHTTP_unavailable [OF n]) (simp_all add: requests_at_max_def)
  with m show ?thesis by (simp add: ServeHTTP_unavailable [OF n])
qed

text \<open>
  Claim C8, amended: every request adds exactly one to \<open>TotalRequests\<close>, with the
  addition of int64, on the 503 path as on the forwarding path, and that is the only
  addition the handler makes to it; a probe, a cycle of the health check and
  \<open>setupReversProxies\<close> leave it as it is. Below the largest int64 the counter rises by
  one; at the largest int64 it goes to the smallest.
\<close>

theorem TotalRequests_adds_one:
  "TotalRequests (fst (snd (ServeHTTP proxy_ServeHTTP lb))) = TotalRequests lb + 1 \<and>
   filter (\<lambda>op. fst op = TotalRequestsCounter) (snd (snd (ServeHTTP proxy_ServeHTTP lb))) =
     [(TotalRequestsCounter, 1)] \<and>
   TotalRequests (healthCheck_probe client_Get i lb) = TotalRequests lb \<and>
   TotalRequests (healthCheck_cycle client_Get lb) = TotalRequests lb \<and>
   TotalRequests (setupReversProxies url_Parse lb) = TotalRequests lb \<and>
   (sint (TotalRequests lb) < 2 ^ 63 - 1 \<longrightarrow>
      sint (TotalRequests (fst (snd (ServeHTTP proxy_ServeHTTP lb)))) = sint (TotalRequests lb) + 1) \<and>
   (sint (TotalRequests lb) = 2 ^ 63 - 1 \<longrightarrow>
      sint (TotalRequests (fst (snd (ServeHTTP proxy_ServeHTTP lb)))) = - (2 ^ 63))"
proof -
  have s: "TotalRequests (fst (snd (ServeHTTP proxy_ServeHTTP lb))) = TotalRequests lb + 1 \<and>
      filter (\<lambda>op. fst op = TotalRequestsCounter) (snd (snd (ServeHTTP proxy_ServeHTTP lb))) =
        [(TotalRequestsCounter, 1)]"
  proof (cases "selectServer lb")
    case None
    then show ?thesis by (simp add: ServeHTTP_unavailable)
  next
    case (Some i)
    then show ?thesis by (simp add: ServeHTTP_forwarded)
  qed
  have h: "TotalRequests (healthCheck_cycle client_Get lb) = TotalRequests lb"
    by (simp add: healthCheck_cycle_def fold_healthCheck_probe_TotalRequests)
  have p: "TotalRequests (setupReversProxies url_Parse lb) = TotalRequests lb"
    by (simp add: setupReversProxies_def)
  from s h p show ?thesis
    by (simp add: healthCheck_probe_TotalRequests sint_succ sint_succ_max)
qed

text \<open>
  Claim C8, amended, on the examples: a request that is answered 503 takes the counter
  from 7 to 8, and a forwarded one from 0 to 1.
\<close>

theorem TotalRequests_adds_one_witness:
  "sint (TotalRequests none_available) < 2 ^ 63 - 1 \<and>
   sint (TotalRequests none_available) = 7 \<and>
   fst (ServeHTTP (\<lambda>p. Returned) none_available) = ServiceUnavailable \<and>
   sint (TotalRequests (fst (snd (ServeHTTP (\<lambda>p. Returned) none_available)))) = 8 \<and>
   sint (TotalRequests (fst (snd (ServeHTTP (\<lambda>p. Returned) two_backends)))) = 1"
proof -
  have a: "sint (TotalRequests none_available) = 7" "sint (TotalRequests two_backends) = 0"
    by (simp_all add: none_available_def two_backends_def)
  have u: "fst (ServeHTTP (\<lambda>p. Returned) none_available) = ServiceUnavailable"
    by (simp add: ServeHTTP_unavailable selectServer_none_available)
  have b: "sint (TotalRequests none_available) < 2 ^ 63 - 1"
    "sint (TotalRequests two_backends) < 2 ^ 63 - 1"
    by (simp_all add: a)
  from TotalRequests_adds_one [where proxy_ServeHTTP = "\<lambda>p. Returned" and lb = none_available
      and client_Get = "\<lambda>u. ProbeError None" and i = 0 and url_Parse = "\<lambda>u. None"] b(1)
  have 1: "sint (TotalRequests (fst (snd (ServeHTTP (\<lambda>p. Returned) none_available)))) =
      sint (TotalRequests none_available) + 1"
    by blast
  from TotalRequests_adds_one [where proxy_ServeHTTP = "\<lambda>p. Returned" and lb = two_backends
      and client_Get = "\<lambda>u. ProbeError None" and i = 0 and url_Parse = "\<lambda>u. None"] b(2)
  have 2: "sint (TotalRequests (fst (snd (ServeHTTP (\<lambda>p. Returned) two_backends)))) =
      sint (TotalRequests two_backends) + 1"
    by blast
  from 1 2 a b u show ?thesis by simp
qed

section \<open>The empty registry\<close>

text \<open>
  Claim C10: with no server, \<open>selectServer\<close> returns nil, every request is answered
  503 and still counted, and \<open>main\<close> starts with the empty list of \<open>empty_config\<close>.
\<close>

theorem empty_registry:
  "selectServer \<lparr>Servers = [], TotalActiveConnections = a, TotalRequests = r\<rparr> = None \<and>
   ServeHTTP proxy_ServeHTTP \<lparr>Servers = [], TotalActiveConnections = a, TotalRequests = r\<rparr> =
     (ServiceUnavailable,
      \<lparr>Servers = [], TotalActiveConnections = a, TotalRequests = r + 1\<rparr>,
      [(TotalRequestsCounter, 1)]) \<and>
   main_startup url_Parse (Document empty_config) =
     Started \<lparr>Servers = [], TotalActiveConnections = 0, TotalRequests = 0\<rparr>"
proof -
  have "selectServer \<lparr>Servers = [], TotalActiveConnections = a, TotalRequests = r\<rparr> = None"
    by (simp add: selectServer_def selectServer_loop.simps)
  then show ?thesis
    by (simp add: ServeHTTP_unavailable main_startup_empty_config)
qed

text \<open>Claim C10 at a registry that has counted 41 requests.\<close>

theorem empty_registry_witness:
  "selectServer \<lparr>Servers = [], TotalActiveConnections = 0, TotalRequests = 41\<rparr> = None \<and>
   ServeHTTP (\<lambda>p. Returned) \<lparr>Servers = [], TotalActiveConnections = 0, TotalRequests = 41\<rparr> =
     (ServiceUnavailable,
      \<lparr>Servers = [], TotalActiveConnections = 0, TotalRequests = 42\<rparr>,
      [(TotalRequestsCounter, 1)]) \<and>
   main_startup (\<lambda>u. Some u) (Document empty_config) =
     Started \<lparr>Servers = [], TotalActiveConnections = 0, TotalRequests = 0\<rparr>"
  using empty_registry [of 0 41 "\<lambda>p. Returned" "\<lambda>u. Some u"] by simp

end
